theory Spec2Isabelle
  imports Complex_Main
begin

section \<open>Pinloop: the chromatin-loop contact-probability engine (src/pinloop/pinloop.py)\<close>

text \<open>
  The script reads a loop catalog (\<^verbatim>\<open>ChIA-PET_final.tsv\<close>) and a table of element-gene
  pairs, and for every chromosome of the pair table bins the loops over the chromosome's
  genes and elements (\<^verbatim>\<open>alloc_pinloop\<close>), accumulates the loop counts into a dense
  gene-by-element matrix and normalises it by row (\<^verbatim>\<open>p_inloop_dense\<close>), and writes the
  matrix value of every pair into the column \<^verbatim>\<open>Pinloop\<close>.

  Numbers. Positions and counts are read by pandas as int64 or float64 and the matrix is
  float64. They are modelled as exact rationals: rounding, overflow, infinities and NaN
  values inside the input data are outside the model. What the script itself can produce
  is modelled: the NaN that is the maximum of an empty index (a label), and the NaN or
  infinity that a division by zero returns (a value of \<open>npfloat\<close>).
\<close>

subsection \<open>Data\<close>

datatype error = IndexError | KeyError | ValueError

text \<open>A row of the loop catalog.\<close>

record loop =
  chr :: string
  center1 :: rat
  center2 :: rat
  loop_length :: rat
  count :: rat

text \<open>
  A row of the frame \<^verbatim>\<open>loops\<close> of \<^verbatim>\<open>alloc_pinloop\<close>: the loop with the four
  columns that \<^verbatim>\<open>df_chiapet.assign(...)\<close> adds.
\<close>

record aloop = loop +
  atac_start :: int
  atac_end :: int
  rnaseq_start :: int
  rnaseq_end :: int

text \<open>
  A float64 as numpy's division returns it: a number, or NaN, or an infinity.
\<close>

datatype npfloat = Finite rat | NotANumber | PlusInf | MinusInf

text \<open>A cell of a column that the script does not read.\<close>

datatype cell = Num npfloat | Str string

text \<open>
  A row of the pair table: the seven columns the script reads, and every other column of
  the row in the table's order, by name. The column \<^verbatim>\<open>Pinloop\<close> is one of the latter.
\<close>

record pair_row =
  ElementChr :: string
  ElementStart :: int
  ElementEnd :: int
  ElementName :: string
  GeneEnsemblID :: string
  GeneSymbol :: string
  GeneTSS :: int
  others :: "(string \<times> cell) list"

text \<open>
  Rows of \<^verbatim>\<open>genes_on_chr\<close> (GeneEnsemblID, GeneSymbol, GeneTSS) and of
  \<^verbatim>\<open>elements_on_chr\<close> (ElementName, ElementStart, ElementEnd).
\<close>

type_synonym gene = "string \<times> string \<times> int"
type_synonym element = "string \<times> int \<times> int"

fun gene_id :: "gene \<Rightarrow> string" where
  "gene_id (i, s, t) = i"

fun gene_tss :: "gene \<Rightarrow> int" where
  "gene_tss (i, s, t) = t"

fun element_name :: "element \<Rightarrow> string" where
  "element_name (n, s, e) = n"

text \<open>Line 23: \<^verbatim>\<open>df_atac["center"] = (df_atac["ElementStart"] + df_atac["ElementEnd"]) / 2\<close>.\<close>

fun center :: "element \<Rightarrow> rat" where
  "center (n, s, e) = of_int (s + e) / 2"

subsection \<open>Library operations of pandas and numpy\<close>

text \<open>
  \<^verbatim>\<open>drop_duplicates()\<close> and \<^verbatim>\<open>unique()\<close> keep the first occurrence of every value, in
  the order of appearance. Nothing is sorted.
\<close>

fun drop_duplicates :: "'a list \<Rightarrow> 'a list" where
  "drop_duplicates [] = []"
| "drop_duplicates (x # xs) = x # drop_duplicates (filter (\<lambda>y. y \<noteq> x) xs)"

text \<open>The index of a frame after \<^verbatim>\<open>reset_index(drop=True)\<close>: the labels 0, 1, ..., n-1.\<close>

definition frame_index :: "'a list \<Rightarrow> int list" where
  "frame_index df = map int [0..<length df]"

text \<open>\<^verbatim>\<open>df.index[0]\<close> raises IndexError on an empty index.\<close>

fun index0 :: "int list \<Rightarrow> error + int" where
  "index0 [] = Inl IndexError"
| "index0 (i # _) = Inr i"

text \<open>
  \<^verbatim>\<open>np.searchsorted(a, v)\<close> with the default \<^verbatim>\<open>side='left'\<close>: numpy's bisection.
  It reads the array as it is given; numpy does not check that it is sorted.
  \<open>bisect_left\<close> is the inner loop of numpy's search, between two bounds, and
  \<open>searchsorted\<close> is the search for one key, over the whole array.
\<close>

function bisect_left :: "'a::linorder list \<Rightarrow> 'a \<Rightarrow> nat \<Rightarrow> nat \<Rightarrow> nat" where
  "bisect_left arr key lo hi =
     (if lo < hi
      then (if arr ! (lo + (hi - lo) div 2) < key
            then bisect_left arr key (lo + (hi - lo) div 2 + 1) hi
            else bisect_left arr key lo (lo + (hi - lo) div 2))
      else lo)"
  by pat_completeness auto
termination
  by (relation "measure (\<lambda>(arr, key, lo, hi). hi - lo)") auto

declare bisect_left.simps [simp del]

definition searchsorted :: "'a::linorder list \<Rightarrow> 'a \<Rightarrow> nat" where
  "searchsorted arr key = bisect_left arr key 0 (length arr)"

text \<open>
  The search for a column of keys, as \<^verbatim>\<open>alloc_pinloop\<close> calls it. numpy keeps the two
  bounds and the previous key from one key to the next: when the key is above the
  previous key the lower bound stays and the upper bound is reset to the length of the
  array; otherwise the lower bound is reset to 0 and the upper bound is raised by one
  (up to the length). The inner loop ends with both bounds at the index it returns. For
  the first key the previous key is the key itself and the bounds are 0 and the length.
\<close>

fun searchsorted_keys :: "'a::linorder list \<Rightarrow> nat \<Rightarrow> nat \<Rightarrow> 'a \<Rightarrow> 'a list \<Rightarrow> nat list" where
  "searchsorted_keys arr min_idx max_idx last_key [] = []"
| "searchsorted_keys arr min_idx max_idx last_key (key # keys) =
     (let lo = (if last_key < key then min_idx else 0);
          hi = (if last_key < key then length arr
                else if max_idx < length arr then max_idx + 1 else length arr);
          r = bisect_left arr key lo hi
      in r # searchsorted_keys arr r r key keys)"

definition np_searchsorted :: "'a::linorder list \<Rightarrow> 'a list \<Rightarrow> nat list" where
  "np_searchsorted arr keys =
     (case keys of [] \<Rightarrow> [] | key # _ \<Rightarrow> searchsorted_keys arr 0 (length arr) key keys)"

text \<open>
  A key of the dictionaries of \<^verbatim>\<open>p_inloop_dense\<close>: an index label, or the NaN that
  pandas returns as the maximum of an empty index.
\<close>

datatype label = Lab int | NaN

text \<open>\<^verbatim>\<open>np.max(ids)\<close> of a pandas index: NaN when the index is empty.\<close>

fun np_max :: "int list \<Rightarrow> label" where
  "np_max [] = NaN"
| "np_max (x # xs) = Lab (fold max xs x)"

fun label_succ :: "label \<Rightarrow> label" where
  "label_succ (Lab k) = Lab (k + 1)"
| "label_succ NaN = NaN"

text \<open>
  \<^verbatim>\<open>xs[start:stop]\<close> on an axis of length n, with bounds that are None or a
  non-negative integer (the values of the dictionaries are \<^verbatim>\<open>np.arange\<close> ranks):
  None is the whole axis on its side, a stop beyond n is n, and a start that is not below
  the stop gives the empty slice.
\<close>

definition in_slice :: "nat option \<Rightarrow> nat option \<Rightarrow> nat \<Rightarrow> nat \<Rightarrow> bool" where
  "in_slice start stop n i =
     (i < n \<and> (case start of None \<Rightarrow> 0 | Some a \<Rightarrow> a) \<le> i
            \<and> i < (case stop of None \<Rightarrow> n | Some b \<Rightarrow> b))"

text \<open>\<^verbatim>\<open>xs[start:stop] += c\<close> on a vector.\<close>

definition add_slice :: "nat option \<Rightarrow> nat option \<Rightarrow> rat \<Rightarrow> rat list \<Rightarrow> rat list" where
  "add_slice start stop c xs =
     map (\<lambda>i. if in_slice start stop (length xs) i then xs ! i + c else xs ! i) [0..<length xs]"

text \<open>\<^verbatim>\<open>m[r0:r1, c0:c1] += c\<close> on a matrix, a list of rows.\<close>

definition add_slice2 ::
  "nat option \<Rightarrow> nat option \<Rightarrow> nat option \<Rightarrow> nat option \<Rightarrow> rat \<Rightarrow> rat list list \<Rightarrow> rat list list" where
  "add_slice2 r0 r1 c0 c1 c m =
     map (\<lambda>g. if in_slice r0 r1 (length m) g then add_slice c0 c1 c (m ! g) else m ! g)
       [0..<length m]"

text \<open>
  The division of two floats by numpy: a division by zero does not raise, it returns NaN
  for 0 / 0 and an infinity of the sign of the dividend otherwise.
\<close>

definition true_divide :: "rat \<Rightarrow> rat \<Rightarrow> npfloat" where
  "true_divide x y =
     (if y = 0 then (if x = 0 then NotANumber else if 0 < x then PlusInf else MinusInf)
      else Finite (x / y))"

text \<open>
  Line 65: \<^verbatim>\<open>np.divide(p, t[:, None], out=np.zeros_like(p), where=t[:, None] != 0)\<close>.
  Where the mask is true the cell is the quotient; where the mask is false nothing is
  divided and the cell keeps the value of \<^verbatim>\<open>out\<close>, which is 0.
\<close>

definition np_divide :: "rat list list \<Rightarrow> rat list \<Rightarrow> npfloat list list" where
  "np_divide p t =
     map (\<lambda>(row, tg). map (\<lambda>x. if tg \<noteq> 0 then true_divide x tg else Finite 0) row) (zip p t)"

text \<open>\<^verbatim>\<open>m.T\<close> of a matrix with \<open>ncols\<close> columns.\<close>

definition np_T :: "nat \<Rightarrow> 'a list list \<Rightarrow> 'a list list" where
  "np_T ncols m = map (\<lambda>e. map (\<lambda>row. row ! e) m) [0..<ncols]"

subsection \<open>alloc_pinloop (lines 22-47)\<close>

text \<open>
  One column of bins: one call of \<^verbatim>\<open>np.searchsorted\<close> with the whole column of
  anchors, plus the first label of the frame's index. When the frame is empty the guard
  of lines 26 and 37 skips the search and the read of \<^verbatim>\<open>index[0]\<close>, and the
  column keeps the 0 of line 24.
\<close>

definition axis_bins :: "'a list \<Rightarrow> rat list \<Rightarrow> rat list \<Rightarrow> error + int list" where
  "axis_bins df arr keys =
     (if length df \<noteq> 0
      then (case index0 (frame_index df) of
              Inl e \<Rightarrow> Inl e
            | Inr off \<Rightarrow> Inr (map (\<lambda>i. int i + off) (np_searchsorted arr keys)))
      else Inr (replicate (length keys) 0))"

text \<open>
  The four columns are computed in the order of the source (lines 27, 32, 38, 43), each
  from the column \<^verbatim>\<open>center1\<close> or \<^verbatim>\<open>center2\<close> of all the loops, and row i of the
  result is loop i with the i-th entry of each column.
\<close>

definition alloc_pinloop :: "gene list \<Rightarrow> element list \<Rightarrow> loop list \<Rightarrow> error + aloop list" where
  "alloc_pinloop df_rna df_atac df_chiapet =
     (case axis_bins df_atac (map center df_atac) (map center1 df_chiapet) of
        Inl e \<Rightarrow> Inl e
      | Inr a_start \<Rightarrow>
     (case axis_bins df_atac (map center df_atac) (map center2 df_chiapet) of
        Inl e \<Rightarrow> Inl e
      | Inr a_end \<Rightarrow>
     (case axis_bins df_rna (map (\<lambda>g. of_int (gene_tss g)) df_rna) (map center1 df_chiapet) of
        Inl e \<Rightarrow> Inl e
      | Inr r_start \<Rightarrow>
     (case axis_bins df_rna (map (\<lambda>g. of_int (gene_tss g)) df_rna) (map center2 df_chiapet) of
        Inl e \<Rightarrow> Inl e
      | Inr r_end \<Rightarrow>
          Inr (map (\<lambda>i. loop.extend (df_chiapet ! i)
                          (aloop.fields (a_start ! i) (a_end ! i) (r_start ! i) (r_end ! i)))
                 [0..<length df_chiapet])))))"

subsection \<open>p_inloop_dense (lines 50-65)\<close>

text \<open>
  Lines 51-52: \<^verbatim>\<open>dict(zip(np.append(ids, np.max(ids)+1), np.arange(len(ids)+1)))\<close>.
  A later pair of a key replaces an earlier one.
\<close>

definition id_dict :: "int list \<Rightarrow> label \<Rightarrow> nat option" where
  "id_dict ids =
     map_of (rev (zip (map Lab ids @ [label_succ (np_max ids)]) [0..<length ids + 1]))"

text \<open>Lines 57-63: the body of the loop over the rows of \<^verbatim>\<open>df_chiapet\<close>.\<close>

definition loop_step ::
  "int list \<Rightarrow> int list \<Rightarrow> aloop \<Rightarrow> rat list list \<times> rat list \<Rightarrow> rat list list \<times> rat list" where
  "loop_step prm_ids enh_ids l acc =
     (let prm_start = id_dict prm_ids (Lab (rnaseq_start l));
          prm_end = id_dict prm_ids (Lab (rnaseq_end l));
          enh_start = id_dict enh_ids (Lab (atac_start l));
          enh_end = id_dict enh_ids (Lab (atac_end l))
      in (add_slice2 prm_start prm_end enh_start enh_end (count l) (fst acc),
          add_slice prm_start prm_end (count l) (snd acc)))"

text \<open>Lines 54-63: the matrix \<^verbatim>\<open>p_inloop\<close> and the vector \<^verbatim>\<open>prm_inloop\<close> after the loop.\<close>

definition accumulate :: "int list \<Rightarrow> int list \<Rightarrow> aloop list \<Rightarrow> rat list list \<times> rat list" where
  "accumulate prm_ids enh_ids df_chiapet =
     fold (loop_step prm_ids enh_ids) df_chiapet
       (replicate (length prm_ids) (replicate (length enh_ids) 0), replicate (length prm_ids) 0)"

definition p_inloop_dense :: "int list \<Rightarrow> int list \<Rightarrow> aloop list \<Rightarrow> npfloat list list" where
  "p_inloop_dense prm_ids enh_ids df_chiapet =
     np_divide (fst (accumulate prm_ids enh_ids df_chiapet))
               (snd (accumulate prm_ids enh_ids df_chiapet))"

subsection \<open>The loop over the chromosomes (lines 68-81)\<close>

definition genes_of :: "pair_row list \<Rightarrow> gene list" where
  "genes_of pairs_on_chr =
     drop_duplicates (map (\<lambda>r. (GeneEnsemblID r, GeneSymbol r, GeneTSS r)) pairs_on_chr)"

definition elements_of :: "pair_row list \<Rightarrow> element list" where
  "elements_of pairs_on_chr =
     drop_duplicates (map (\<lambda>r. (ElementName r, ElementStart r, ElementEnd r)) pairs_on_chr)"

text \<open>Lines 76-78: the transposed matrix of one chromosome, elements by genes.\<close>

definition chrom_pinloop ::
  "gene list \<Rightarrow> element list \<Rightarrow> loop list \<Rightarrow> error + npfloat list list" where
  "chrom_pinloop genes_on_chr elements_on_chr chiapet_on_chr =
     (case alloc_pinloop genes_on_chr elements_on_chr
             (filter (\<lambda>l. loop_length l < 1000000) chiapet_on_chr) of
        Inl e \<Rightarrow> Inl e
      | Inr alloc_loops \<Rightarrow>
          Inr (np_T (length elements_on_chr)
                 (p_inloop_dense (frame_index genes_on_chr) (frame_index elements_on_chr)
                    alloc_loops)))"

text \<open>
  \<^verbatim>\<open>lookup.loc[r, c]\<close> on the frame of line 79, with the row labels \<open>names\<close> and the
  column labels \<open>ids\<close>: KeyError when a label is absent, the cell when both labels
  occur once, and otherwise (a label occurs more than once) the Series or DataFrame of
  all the cells selected.
\<close>

datatype 'a looked = Scalar 'a | Frame "'a list list"

definition positions :: "'a list \<Rightarrow> 'a \<Rightarrow> nat list" where
  "positions xs x = filter (\<lambda>i. xs ! i = x) [0..<length xs]"

definition lookup_loc ::
  "string list \<Rightarrow> string list \<Rightarrow> 'a list list \<Rightarrow> string \<Rightarrow> string \<Rightarrow> error + 'a looked" where
  "lookup_loc names ids m r c =
     (case (positions names r, positions ids c) of
        ([], _) \<Rightarrow> Inl KeyError
      | (_, []) \<Rightarrow> Inl KeyError
      | ([i], [j]) \<Rightarrow> Inr (Scalar (m ! i ! j))
      | (is, js) \<Rightarrow> Inr (Frame (map (\<lambda>i. map (\<lambda>j. m ! i ! j) js) is)))"

text \<open>The list comprehension of line 81 stops at the first lookup that raises.\<close>

fun lookups ::
  "string list \<Rightarrow> string list \<Rightarrow> 'a list list \<Rightarrow> (string \<times> string) list
     \<Rightarrow> error + 'a looked list" where
  "lookups names ids m [] = Inr []"
| "lookups names ids m ((r, c) # rcs) =
     (case lookup_loc names ids m r c of
        Inl e \<Rightarrow> Inl e
      | Inr v \<Rightarrow> (case lookups names ids m rcs of Inl e \<Rightarrow> Inl e | Inr vs \<Rightarrow> Inr (v # vs)))"

text \<open>
  The right-hand side of the assignment of line 81 must be a list of numbers; pandas
  rejects a list that holds a Series or a DataFrame with a ValueError.
\<close>

fun scalars :: "'a looked list \<Rightarrow> error + 'a list" where
  "scalars [] = Inr []"
| "scalars (Scalar v # ls) = (case scalars ls of Inl e \<Rightarrow> Inl e | Inr vs \<Rightarrow> Inr (v # vs))"
| "scalars (Frame f # ls) = Inl ValueError"

text \<open>
  \<^verbatim>\<open>frame[name] = v\<close> on one row: an existing column of that name is overwritten in
  place, otherwise the column is appended.
\<close>

definition set_column :: "string \<Rightarrow> cell \<Rightarrow> pair_row \<Rightarrow> pair_row" where
  "set_column name v r =
     (if name \<in> fst ` set (others r)
      then r\<lparr>others := map (\<lambda>(k, x). if k = name then (k, v) else (k, x)) (others r)\<rparr>
      else r\<lparr>others := others r @ [(name, v)]\<rparr>)"

text \<open>
  \<^verbatim>\<open>pair_info.loc[pairs_on_chr.index, "Pinloop"] = values\<close>: the k-th value goes to the
  row of the k-th label.
\<close>

definition assign_pinloop :: "nat list \<Rightarrow> npfloat list \<Rightarrow> pair_row list \<Rightarrow> pair_row list" where
  "assign_pinloop idx vals pair_info =
     fold (\<lambda>(i, v) t. t[i := set_column ''Pinloop'' (Num v) (t ! i)]) (zip idx vals) pair_info"

text \<open>Lines 69-81: the body of the loop, for the chromosome \<open>chrm\<close>.\<close>

definition process_chr :: "loop list \<Rightarrow> string \<Rightarrow> pair_row list \<Rightarrow> error + pair_row list" where
  "process_chr chiapet chrm pair_info =
     (let idx = filter (\<lambda>i. ElementChr (pair_info ! i) = chrm) [0..<length pair_info];
          pairs_on_chr = map (\<lambda>i. pair_info ! i) idx;
          genes_on_chr = genes_of pairs_on_chr;
          elements_on_chr = elements_of pairs_on_chr;
          chiapet_on_chr = filter (\<lambda>l. chr l = chrm) chiapet
      in case chrom_pinloop genes_on_chr elements_on_chr chiapet_on_chr of
           Inl e \<Rightarrow> Inl e
         | Inr pinloop \<Rightarrow>
             (case lookups (map element_name elements_on_chr) (map gene_id genes_on_chr) pinloop
                     (map (\<lambda>r. (ElementName r, GeneEnsemblID r)) pairs_on_chr) of
                Inl e \<Rightarrow> Inl e
              | Inr ls \<Rightarrow>
                  (case scalars ls of
                     Inl e \<Rightarrow> Inl e
                   | Inr vals \<Rightarrow> Inr (assign_pinloop idx vals pair_info))))"

fun run_chromosomes :: "loop list \<Rightarrow> string list \<Rightarrow> pair_row list \<Rightarrow> error + pair_row list" where
  "run_chromosomes chiapet [] pair_info = Inr pair_info"
| "run_chromosomes chiapet (chrm # chrms) pair_info =
     (case process_chr chiapet chrm pair_info of
        Inl e \<Rightarrow> Inl e
      | Inr pair_info' \<Rightarrow> run_chromosomes chiapet chrms pair_info')"

text \<open>
  Lines 16-19 and 68-84 without the file reads and the file write: from the loop catalog
  and the pair table to the table that is written.
\<close>

definition pinloop_main :: "loop list \<Rightarrow> pair_row list \<Rightarrow> error + pair_row list" where
  "pinloop_main chiapet pair_table =
     (let pair_info = map (set_column ''Pinloop'' (Num (Finite 0))) pair_table
      in run_chromosomes chiapet (drop_duplicates (map ElementChr pair_info)) pair_info)"

section \<open>Properties\<close>

subsection \<open>The lower-bound search\<close>

lemma bisect_left_spec:
  "sorted arr \<Longrightarrow> lo \<le> hi \<Longrightarrow> hi \<le> length arr \<Longrightarrow>
   (\<forall>j<lo. arr ! j < key) \<Longrightarrow> (\<forall>j. hi \<le> j \<and> j < length arr \<longrightarrow> key \<le> arr ! j) \<Longrightarrow>
   lo \<le> bisect_left arr key lo hi \<and> bisect_left arr key lo hi \<le> hi \<and>
   (\<forall>j<bisect_left arr key lo hi. arr ! j < key) \<and>
   (\<forall>j. bisect_left arr key lo hi \<le> j \<and> j < length arr \<longrightarrow> key \<le> arr ! j)"
proof (induction arr key lo hi rule: bisect_left.induct)
  case (1 arr key lo hi)
  let ?mid = "lo + (hi - lo) div 2"
  show ?case
  proof (cases "lo < hi")
    case False
    with "1.prems" show ?thesis by (simp add: bisect_left.simps)
  next
    case True
    then have mid: "lo \<le> ?mid" "?mid < hi" by auto
    show ?thesis
    proof (cases "arr ! ?mid < key")
      case lt: True
      have below: "\<forall>j<?mid + 1. arr ! j < key"
      proof (intro allI impI)
        fix j assume "j < ?mid + 1"
        then have "j \<le> ?mid" by simp
        moreover have "?mid < length arr" using mid "1.prems"(3) by linarith
        ultimately have "arr ! j \<le> arr ! ?mid"
          using "1.prems"(1) by (simp add: sorted_iff_nth_mono)
        with lt show "arr ! j < key" by simp
      qed
      have "?mid + 1 \<le> hi" using mid by simp
      from "1.IH"(1)[OF True lt "1.prems"(1) this "1.prems"(3) below "1.prems"(5)]
      show ?thesis using True lt mid by (subst (1 2 3 4) bisect_left.simps) auto
    next
      case ge: False
      have above: "\<forall>j. ?mid \<le> j \<and> j < length arr \<longrightarrow> key \<le> arr ! j"
      proof (intro allI impI)
        fix j assume j: "?mid \<le> j \<and> j < length arr"
        then have "arr ! ?mid \<le> arr ! j"
          using "1.prems"(1) by (simp add: sorted_iff_nth_mono)
        with ge show "key \<le> arr ! j" by simp
      qed
      have "?mid \<le> length arr" using mid "1.prems"(3) by linarith
      from "1.IH"(2)[OF True ge "1.prems"(1) mid(1) this "1.prems"(4) above]
      show ?thesis using True ge mid by (subst (1 2 3 4) bisect_left.simps) auto
    qed
  qed
qed

lemma searchsorted_spec:
  assumes "sorted arr"
  shows "searchsorted arr key \<le> length arr"
    and "\<forall>j<searchsorted arr key. arr ! j < key"
    and "\<forall>j. searchsorted arr key \<le> j \<and> j < length arr \<longrightarrow> key \<le> arr ! j"
proof -
  have "\<forall>j<0::nat. arr ! j < key" by simp
  moreover have "\<forall>j. length arr \<le> j \<and> j < length arr \<longrightarrow> key \<le> arr ! j" by auto
  ultimately have r: "0 \<le> bisect_left arr key 0 (length arr)
      \<and> bisect_left arr key 0 (length arr) \<le> length arr
      \<and> (\<forall>j<bisect_left arr key 0 (length arr). arr ! j < key)
      \<and> (\<forall>j. bisect_left arr key 0 (length arr) \<le> j \<and> j < length arr \<longrightarrow> key \<le> arr ! j)"
    using bisect_left_spec[of arr 0 "length arr" key] assms by blast
  show "searchsorted arr key \<le> length arr"
    and "\<forall>j<searchsorted arr key. arr ! j < key"
    and "\<forall>j. searchsorted arr key \<le> j \<and> j < length arr \<longrightarrow> key \<le> arr ! j"
    using r unfolding searchsorted_def by blast+
qed

lemma searchsorted_takeWhile:
  assumes "sorted arr"
  shows "searchsorted arr key = length (takeWhile (\<lambda>x. x < key) arr)"
proof (rule antisym)
  show "searchsorted arr key \<le> length (takeWhile (\<lambda>x. x < key) arr)"
    using searchsorted_spec(1,2)[OF assms, of key]
    by (intro length_takeWhile_less_P_nth) auto
next
  let ?n = "length (takeWhile (\<lambda>x. x < key) arr)"
  show "?n \<le> searchsorted arr key"
  proof (rule ccontr)
    assume "\<not> ?n \<le> searchsorted arr key"
    then have lt: "searchsorted arr key < ?n" by simp
    have "?n \<le> length arr" by (rule length_takeWhile_le)
    with lt have "key \<le> arr ! searchsorted arr key"
      using searchsorted_spec(3)[OF assms, of key] by auto
    moreover have "arr ! searchsorted arr key < key"
      using lt by (metis nth_mem set_takeWhileD takeWhile_nth)
    ultimately show False by simp
  qed
qed

lemma lower_bound_unique:
  assumes "sorted arr" and "r \<le> length arr" and "\<forall>j<r. arr ! j < key"
    and "\<forall>j. r \<le> j \<and> j < length arr \<longrightarrow> key \<le> arr ! j"
  shows "r = searchsorted arr key"
proof -
  let ?n = "length (takeWhile (\<lambda>x. x < key) arr)"
  have "r \<le> ?n"
    using assms(2,3) by (intro length_takeWhile_less_P_nth) auto
  moreover have "?n \<le> r"
  proof (rule ccontr)
    assume "\<not> ?n \<le> r"
    then have lt: "r < ?n" by simp
    have "?n \<le> length arr" by (rule length_takeWhile_le)
    with lt have "key \<le> arr ! r" using assms(4) by auto
    moreover have "arr ! r < key"
      using lt by (metis nth_mem set_takeWhileD takeWhile_nth)
    ultimately show False by simp
  qed
  ultimately show ?thesis by (simp add: searchsorted_takeWhile[OF assms(1)])
qed

lemma length_searchsorted_keys [simp]:
  "length (searchsorted_keys arr lo hi last_key keys) = length keys"
  by (induction keys arbitrary: lo hi last_key) (simp_all add: Let_def)

lemma length_np_searchsorted [simp]: "length (np_searchsorted arr keys) = length keys"
  by (cases keys) (simp_all add: np_searchsorted_def Let_def)

lemma np_searchsorted_single: "np_searchsorted arr [key] = [searchsorted arr key]"
  by (simp add: np_searchsorted_def searchsorted_def)

lemma searchsorted_keys_sorted:
  assumes s: "sorted arr"
  shows "lo \<le> hi \<Longrightarrow> hi \<le> length arr \<Longrightarrow> \<forall>j<lo. arr ! j < last_key \<Longrightarrow>
         \<forall>j. hi \<le> j \<and> j < length arr \<longrightarrow> last_key \<le> arr ! j \<Longrightarrow>
         searchsorted_keys arr lo hi last_key keys = map (searchsorted arr) keys"
proof (induction keys arbitrary: lo hi last_key)
  case Nil
  then show ?case by simp
next
  case (Cons key keys)
  let ?lo = "if last_key < key then lo else 0"
  let ?hi = "if last_key < key then length arr
             else if hi < length arr then hi + 1 else length arr"
  let ?r = "bisect_left arr key ?lo ?hi"
  have b1: "?lo \<le> ?hi" using Cons.prems(1,2) by simp
  have b2: "?hi \<le> length arr" by simp
  have b3: "\<forall>j<?lo. arr ! j < key"
  proof (intro allI impI)
    fix j assume j: "j < ?lo"
    then have lt: "last_key < key" and "j < lo" by (simp_all split: if_splits)
    then have "arr ! j < last_key" using Cons.prems(3) by simp
    with lt show "arr ! j < key" by simp
  qed
  have b4: "\<forall>j. ?hi \<le> j \<and> j < length arr \<longrightarrow> key \<le> arr ! j"
  proof (intro allI impI)
    fix j assume j: "?hi \<le> j \<and> j < length arr"
    show "key \<le> arr ! j"
    proof (cases "last_key < key")
      case True
      with j show ?thesis by auto
    next
      case False
      with j have "hi \<le> j" by (auto split: if_splits)
      then have "last_key \<le> arr ! j" using Cons.prems(4) j by simp
      with False show ?thesis by simp
    qed
  qed
  note sp = bisect_left_spec[OF s b1 b2 b3 b4]
  have "?r \<le> ?hi" using sp by (rule conjunct1[OF conjunct2])
  then have r1: "?r \<le> length arr" using b2 by (rule order_trans)
  have r2: "\<forall>j<?r. arr ! j < key" using sp by (rule conjunct1[OF conjunct2[OF conjunct2]])
  have r3: "\<forall>j. ?r \<le> j \<and> j < length arr \<longrightarrow> key \<le> arr ! j"
    using sp by (rule conjunct2[OF conjunct2[OF conjunct2]])
  note r = r1 r2 r3
  have eq: "?r = searchsorted arr key" using s r by (rule lower_bound_unique)
  have "searchsorted_keys arr ?r ?r key keys = map (searchsorted arr) keys"
    using r1 r2 r3 by (intro Cons.IH) auto
  then show ?case by (simp add: Let_def eq)
qed

lemma np_searchsorted_sorted:
  "sorted arr \<Longrightarrow> np_searchsorted arr keys = map (searchsorted arr) keys"
proof (cases keys)
  case Nil
  then show ?thesis by (simp add: np_searchsorted_def)
next
  case (Cons key ks)
  assume s: "sorted arr"
  have "searchsorted_keys arr 0 (length arr) key keys = map (searchsorted arr) keys"
    using s by (intro searchsorted_keys_sorted) auto
  then show ?thesis by (simp add: np_searchsorted_def Cons)
qed

text \<open>
  Claim C2. On an ascending array, \<open>searchsorted\<close> returns the leftmost insertion point
  of the key: every element before the index is below the key and every element from the
  index on is at least the key, so the index is the lowest one whose element is at least
  the key (the number of leading elements below the key). It is 0 when the key is at most
  every element and the length of the array when the key exceeds every element. The
  search for a column of keys, as \<open>alloc_pinloop\<close> calls it, returns that index for
  every key of the column.
\<close>

theorem searchsorted_lower_bound:
  assumes "sorted arr"
  shows "searchsorted arr key \<le> length arr
       \<and> (\<forall>j<searchsorted arr key. arr ! j < key)
       \<and> (\<forall>j. searchsorted arr key \<le> j \<and> j < length arr \<longrightarrow> key \<le> arr ! j)
       \<and> searchsorted arr key = length (takeWhile (\<lambda>x. x < key) arr)
       \<and> ((\<forall>x\<in>set arr. key \<le> x) \<longrightarrow> searchsorted arr key = 0)
       \<and> ((\<forall>x\<in>set arr. x < key) \<longrightarrow> searchsorted arr key = length arr)
       \<and> np_searchsorted arr keys = map (searchsorted arr) keys"
proof -
  have a: "(\<forall>x\<in>set arr. key \<le> x) \<longrightarrow> searchsorted arr key = 0"
  proof
    assume h: "\<forall>x\<in>set arr. key \<le> x"
    show "searchsorted arr key = 0"
    proof (rule ccontr)
      assume "searchsorted arr key \<noteq> 0"
      then have "0 < searchsorted arr key" by simp
      then have "arr ! 0 < key" "0 < length arr"
        using searchsorted_spec(1,2)[OF assms, of key] by auto
      with h show False by (metis not_le nth_mem)
    qed
  qed
  have b: "(\<forall>x\<in>set arr. x < key) \<longrightarrow> searchsorted arr key = length arr"
    by (simp add: searchsorted_takeWhile[OF assms] takeWhile_eq_all_conv[THEN iffD2])
  show ?thesis
    using searchsorted_spec[OF assms, of key] searchsorted_takeWhile[OF assms, of key] a b
      np_searchsorted_sorted[OF assms, of keys]
    by (intro conjI)
qed

theorem searchsorted_lower_bound_witness:
  "sorted [100, 500, 900 :: int]
   \<and> searchsorted [100, 500, 900 :: int] 80 = 0
   \<and> searchsorted [100, 500, 900 :: int] 500 = 1
   \<and> searchsorted [100, 500, 900 :: int] 501 = 2
   \<and> searchsorted [100, 500, 900 :: int] 950 = 3
   \<and> np_searchsorted [100, 500, 900 :: int] [950, 80, 500] = [3, 0, 1]"
proof -
  have s: "sorted [100, 500, 900 :: int]" by simp
  note inst = searchsorted_lower_bound[OF s]
  have k: "searchsorted [100, 500, 900 :: int] k = length (takeWhile (\<lambda>x. x < k) [100, 500, 900])" for k
    using inst[of k "[]"] by (elim conjE)
  have ks: "np_searchsorted [100, 500, 900 :: int] [950, 80, 500]
      = map (searchsorted [100, 500, 900 :: int]) [950, 80, 500]"
    using inst[of 0 "[950, 80, 500]"] by (elim conjE)
  show ?thesis unfolding ks using s by (simp add: k)
qed

subsection \<open>Shapes and bounds of the accumulation\<close>

lemma length_add_slice [simp]: "length (add_slice a b c xs) = length xs"
  by (simp add: add_slice_def)

lemma nth_add_slice:
  "i < length xs \<Longrightarrow>
   add_slice a b c xs ! i = (if in_slice a b (length xs) i then xs ! i + c else xs ! i)"
  by (simp add: add_slice_def)

lemma length_add_slice2 [simp]: "length (add_slice2 r0 r1 c0 c1 c m) = length m"
  by (simp add: add_slice2_def)

lemma nth_add_slice2:
  "g < length m \<Longrightarrow>
   add_slice2 r0 r1 c0 c1 c m ! g =
     (if in_slice r0 r1 (length m) g then add_slice c0 c1 c (m ! g) else m ! g)"
  by (simp add: add_slice2_def)

lemma loop_step_shape:
  assumes "length (fst acc) = G" "length (snd acc) = G" "\<forall>g<G. length (fst acc ! g) = E"
  shows "length (fst (loop_step prm_ids enh_ids l acc)) = G
       \<and> length (snd (loop_step prm_ids enh_ids l acc)) = G
       \<and> (\<forall>g<G. length (fst (loop_step prm_ids enh_ids l acc) ! g) = E)"
  using assms by (simp add: loop_step_def Let_def nth_add_slice2)

lemma fold_loop_step_shape:
  "length (fst acc) = G \<Longrightarrow> length (snd acc) = G \<Longrightarrow> \<forall>g<G. length (fst acc ! g) = E \<Longrightarrow>
   length (fst (fold (loop_step prm_ids enh_ids) ls acc)) = G
   \<and> length (snd (fold (loop_step prm_ids enh_ids) ls acc)) = G
   \<and> (\<forall>g<G. length (fst (fold (loop_step prm_ids enh_ids) ls acc) ! g) = E)"
proof (induction ls arbitrary: acc)
  case Nil
  then show ?case by simp
next
  case (Cons l ls)
  from loop_step_shape[OF Cons.prems, of prm_ids enh_ids l]
  show ?case using Cons.IH[of "loop_step prm_ids enh_ids l acc"] by simp
qed

lemma accumulate_shape:
  "length (fst (accumulate prm_ids enh_ids ls)) = length prm_ids"
  "length (snd (accumulate prm_ids enh_ids ls)) = length prm_ids"
  "g < length prm_ids \<Longrightarrow> length (fst (accumulate prm_ids enh_ids ls) ! g) = length enh_ids"
  using fold_loop_step_shape[of "(replicate (length prm_ids) (replicate (length enh_ids) 0),
      replicate (length prm_ids) 0)" "length prm_ids" "length enh_ids" prm_ids enh_ids ls]
  by (simp_all add: accumulate_def)

lemma loop_step_bound:
  assumes sh: "length (fst acc) = G" "length (snd acc) = G" "\<forall>g<G. length (fst acc ! g) = E"
    and c: "0 \<le> count l"
    and b: "\<forall>g<G. \<forall>e<E. 0 \<le> fst acc ! g ! e \<and> fst acc ! g ! e \<le> snd acc ! g"
  shows "\<forall>g<G. \<forall>e<E. 0 \<le> fst (loop_step prm_ids enh_ids l acc) ! g ! e
           \<and> fst (loop_step prm_ids enh_ids l acc) ! g ! e \<le> snd (loop_step prm_ids enh_ids l acc) ! g"
proof (intro allI impI)
  fix g e assume g: "g < G" and e: "e < E"
  from b g e have le: "0 \<le> fst acc ! g ! e" "fst acc ! g ! e \<le> snd acc ! g" by auto
  from sh g have len: "length (fst acc ! g) = E" by simp
  show "0 \<le> fst (loop_step prm_ids enh_ids l acc) ! g ! e
           \<and> fst (loop_step prm_ids enh_ids l acc) ! g ! e \<le> snd (loop_step prm_ids enh_ids l acc) ! g"
    using sh(1,2) g e len le c
    by (simp add: loop_step_def Let_def nth_add_slice2 nth_add_slice)
qed

lemma fold_loop_step_bound:
  "length (fst acc) = G \<Longrightarrow> length (snd acc) = G \<Longrightarrow> \<forall>g<G. length (fst acc ! g) = E \<Longrightarrow>
   \<forall>l\<in>set ls. 0 \<le> count l \<Longrightarrow>
   \<forall>g<G. \<forall>e<E. 0 \<le> fst acc ! g ! e \<and> fst acc ! g ! e \<le> snd acc ! g \<Longrightarrow>
   \<forall>g<G. \<forall>e<E. 0 \<le> fst (fold (loop_step prm_ids enh_ids) ls acc) ! g ! e
       \<and> fst (fold (loop_step prm_ids enh_ids) ls acc) ! g ! e
           \<le> snd (fold (loop_step prm_ids enh_ids) ls acc) ! g"
proof (induction ls arbitrary: acc)
  case Nil
  then show ?case by simp
next
  case (Cons l ls)
  have c: "0 \<le> count l" and cs: "\<forall>l\<in>set ls. 0 \<le> count l" using Cons.prems(4) by simp_all
  note sh = loop_step_shape[OF Cons.prems(1-3), of prm_ids enh_ids l]
  note bd = loop_step_bound[OF Cons.prems(1-3) c Cons.prems(5), of prm_ids enh_ids]
  have "length (fst (loop_step prm_ids enh_ids l acc)) = G" 
    "length (snd (loop_step prm_ids enh_ids l acc)) = G"
    "\<forall>g<G. length (fst (loop_step prm_ids enh_ids l acc) ! g) = E" using sh by simp_all
  from Cons.IH[OF this cs bd] show ?case by simp
qed

lemma accumulate_bound:
  assumes "\<forall>l\<in>set ls. 0 \<le> count l" "g < length prm_ids" "e < length enh_ids"
  shows "0 \<le> fst (accumulate prm_ids enh_ids ls) ! g ! e"
    and "fst (accumulate prm_ids enh_ids ls) ! g ! e \<le> snd (accumulate prm_ids enh_ids ls) ! g"
  using fold_loop_step_bound[of "(replicate (length prm_ids) (replicate (length enh_ids) 0),
      replicate (length prm_ids) 0)" "length prm_ids" "length enh_ids" ls prm_ids enh_ids] assms
  by (simp_all add: accumulate_def)

lemma true_divide_nonzero: "y \<noteq> 0 \<Longrightarrow> true_divide x y = Finite (x / y)"
  by (simp add: true_divide_def)

lemma true_divide_zero: "true_divide x 0 \<noteq> Finite v"
  by (simp add: true_divide_def)

lemma length_np_divide: "length p = length t \<Longrightarrow> length (np_divide p t) = length t"
  by (simp add: np_divide_def)

lemma nth_np_divide:
  "length p = length t \<Longrightarrow> g < length t \<Longrightarrow>
   np_divide p t ! g = map (\<lambda>x. if t ! g \<noteq> 0 then true_divide x (t ! g) else Finite 0) (p ! g)"
  by (simp add: np_divide_def)

lemma length_p_inloop_dense [simp]:
  "length (p_inloop_dense prm_ids enh_ids ls) = length prm_ids"
  by (simp add: p_inloop_dense_def length_np_divide accumulate_shape)

lemma nth_p_inloop_dense:
  "g < length prm_ids \<Longrightarrow>
   p_inloop_dense prm_ids enh_ids ls ! g =
     map (\<lambda>x. if snd (accumulate prm_ids enh_ids ls) ! g \<noteq> 0
               then true_divide x (snd (accumulate prm_ids enh_ids ls) ! g) else Finite 0)
         (fst (accumulate prm_ids enh_ids ls) ! g)"
  by (simp add: p_inloop_dense_def nth_np_divide accumulate_shape)

lemma p_inloop_dense_unit:
  assumes "\<forall>l\<in>set ls. 0 \<le> count l" "g < length prm_ids" "e < length enh_ids"
  shows "\<exists>v. p_inloop_dense prm_ids enh_ids ls ! g ! e = Finite v \<and> 0 \<le> v \<and> v \<le> 1"
proof -
  let ?x = "fst (accumulate prm_ids enh_ids ls) ! g ! e"
  let ?t = "snd (accumulate prm_ids enh_ids ls) ! g"
  have b: "0 \<le> ?x" "?x \<le> ?t" using accumulate_bound[OF assms] by simp_all
  have cell: "p_inloop_dense prm_ids enh_ids ls ! g ! e
            = (if ?t \<noteq> 0 then true_divide ?x ?t else Finite 0)"
    using assms(2,3) by (simp add: nth_p_inloop_dense accumulate_shape)
  show ?thesis
  proof (cases "?t = 0")
    case True
    then show ?thesis by (simp add: cell)
  next
    case False
    then have "0 \<le> ?x / ?t \<and> ?x / ?t \<le> 1" using b by simp
    with False show ?thesis by (simp add: cell true_divide_nonzero)
  qed
qed

subsection \<open>Normalisation\<close>

text \<open>
  Claim C4. In the normalisation of \<open>p_inloop_dense\<close>, for every gene rank g: when the
  gene total T[g] is positive, row g of the result is row g of the accumulated matrix
  divided elementwise by T[g]; when T[g] is 0, row g of the result is all zero (one 0 per
  element), although the division by that total would return no number for any cell of
  the row; every cell of row g is a number, never NaN or an infinity. So a gene with no
  loop-derived weight has probability 0 for every element.
\<close>

theorem normalization_rows:
  assumes "g < length prm_ids"
  shows "length (p_inloop_dense prm_ids enh_ids ls) = length prm_ids
       \<and> (0 < snd (accumulate prm_ids enh_ids ls) ! g \<longrightarrow>
            p_inloop_dense prm_ids enh_ids ls ! g =
              map (\<lambda>x. Finite (x / snd (accumulate prm_ids enh_ids ls) ! g))
                  (fst (accumulate prm_ids enh_ids ls) ! g))
       \<and> (snd (accumulate prm_ids enh_ids ls) ! g = 0 \<longrightarrow>
            p_inloop_dense prm_ids enh_ids ls ! g = replicate (length enh_ids) (Finite 0)
            \<and> (\<forall>x v. true_divide x (snd (accumulate prm_ids enh_ids ls) ! g) \<noteq> Finite v))
       \<and> (\<forall>c\<in>set (p_inloop_dense prm_ids enh_ids ls ! g). \<exists>v. c = Finite v)"
proof -
  let ?t = "snd (accumulate prm_ids enh_ids ls) ! g"
  have len: "length (fst (accumulate prm_ids enh_ids ls) ! g) = length enh_ids"
    using assms by (rule accumulate_shape(3))
  have zero: "map (\<lambda>x. Finite 0) xs = replicate (length xs) (Finite 0)" for xs :: "rat list"
    by (simp add: map_replicate_const)
  have a: "0 < ?t \<longrightarrow> p_inloop_dense prm_ids enh_ids ls ! g =
              map (\<lambda>x. Finite (x / ?t)) (fst (accumulate prm_ids enh_ids ls) ! g)"
    using assms by (simp add: nth_p_inloop_dense true_divide_nonzero)
  have b: "?t = 0 \<longrightarrow> p_inloop_dense prm_ids enh_ids ls ! g = replicate (length enh_ids) (Finite 0)
            \<and> (\<forall>x v. true_divide x ?t \<noteq> Finite v)"
    using assms len by (simp add: nth_p_inloop_dense zero true_divide_zero)
  have c: "\<forall>c\<in>set (p_inloop_dense prm_ids enh_ids ls ! g). \<exists>v. c = Finite v"
    using assms by (auto simp: nth_p_inloop_dense true_divide_nonzero)
  show ?thesis using a b c by simp
qed

theorem normalization_rows_witness:
  "(0::nat) < length [0, 1 :: int]
   \<and> p_inloop_dense [0, 1] [0, 1, 2]
        [\<lparr>chr = ''chr1'', center1 = 80, center2 = 950, loop_length = 870, count = 4,
          atac_start = 1, atac_end = 3, rnaseq_start = 0, rnaseq_end = 1\<rparr>]
      = [[Finite 0, Finite 1, Finite 1], [Finite 0, Finite 0, Finite 0]]"
proof -
  let ?ls = "[\<lparr>chr = ''chr1'', center1 = 80, center2 = 950, loop_length = 870, count = 4,
          atac_start = 1, atac_end = 3, rnaseq_start = 0, rnaseq_end = 1\<rparr>]"
  have acc: "accumulate [0, 1] [0, 1, 2] ?ls = ([[0, 4, 4], [0, 0, 0]], [4, 0])"
    by (simp add: accumulate_def loop_step_def id_dict_def add_slice2_def add_slice_def
        in_slice_def upt_rec)
  have n0: "(0::nat) < length [0, 1 :: int]" and n1: "(1::nat) < length [0, 1 :: int]" by simp_all
  have "p_inloop_dense [0, 1] [0, 1, 2] ?ls ! 0 = [Finite 0, Finite 1, Finite 1]"
    using normalization_rows[OF n0, of "[0, 1, 2]" ?ls] by (simp add: acc)
  moreover have "p_inloop_dense [0, 1] [0, 1, 2] ?ls ! 1 = [Finite 0, Finite 0, Finite 0]"
    using normalization_rows[OF n1, of "[0, 1, 2]" ?ls] by (simp add: acc numeral_3_eq_3)
  moreover have "length (p_inloop_dense [0, 1] [0, 1, 2] ?ls) = 2" by simp
  ultimately have "p_inloop_dense [0, 1] [0, 1, 2] ?ls
      = [[Finite 0, Finite 1, Finite 1], [Finite 0, Finite 0, Finite 0]]"
    by (simp add: list_eq_iff_nth_eq less_Suc_eq numeral_2_eq_2)
  then show ?thesis by simp
qed

subsection \<open>The scenario of three genes, three elements and one loop\<close>

lemma frame_index_3: "length df = 3 \<Longrightarrow> frame_index df = [0, 1, 2]"
  by (simp add: frame_index_def upt_rec)

lemma id_dict_012:
  "id_dict [0, 1, 2] (Lab 0) = Some 0" "id_dict [0, 1, 2] (Lab 1) = Some 1"
  "id_dict [0, 1, 2] (Lab 2) = Some 2" "id_dict [0, 1, 2] (Lab 3) = Some 3"
  by (simp_all add: id_dict_def upt_rec)

lemma scenario_values:
  assumes g: "map gene_tss genes = [100, 500, 900]"
    and e: "map center elements = [50, 600, 1000]"
    and l: "center1 l = 80" "center2 l = 950" "count l = 4"
  shows "alloc_pinloop genes elements [l] = Inr [loop.extend l (aloop.fields 1 2 0 3)]
       \<and> accumulate (frame_index genes) (frame_index elements)
            [loop.extend l (aloop.fields 1 2 0 3)]
          = ([[0, 4, 0], [0, 4, 0], [0, 4, 0]], [4, 4, 4])
       \<and> p_inloop_dense (frame_index genes) (frame_index elements)
            [loop.extend l (aloop.fields 1 2 0 3)]
          = [[Finite 0, Finite 1, Finite 0], [Finite 0, Finite 1, Finite 0],
             [Finite 0, Finite 1, Finite 0]]"
proof -
  have lg: "length genes = 3" using g by (metis length_map length_Cons list.size(3) numeral_3_eq_3)
  have le: "length elements = 3" using e by (metis length_map length_Cons list.size(3) numeral_3_eq_3)
  have tss: "map (\<lambda>g. of_int (gene_tss g)) genes = [100, 500, 900 :: rat]"
  proof -
    have "map (\<lambda>g. of_int (gene_tss g)) genes = map of_int (map gene_tss genes)" by simp
    then show ?thesis by (simp only: g) simp
  qed
  have bins: "axis_bins genes [100, 500, 900] [80] = Inr [0]"
    "axis_bins genes [100, 500, 900] [950] = Inr [3]"
    "axis_bins elements [50, 600, 1000] [80] = Inr [1]"
    "axis_bins elements [50, 600, 1000] [950] = Inr [2]"
    using lg le
    by (simp_all add: axis_bins_def frame_index_def upt_rec np_searchsorted_single
        searchsorted_takeWhile)
  have alloc: "alloc_pinloop genes elements [l] = Inr [loop.extend l (aloop.fields 1 2 0 3)]"
    by (simp add: alloc_pinloop_def tss e l bins)
  have fi: "frame_index genes = [0, 1, 2]" "frame_index elements = [0, 1, 2]"
    using lg le by (simp_all add: frame_index_3)
  have acc: "accumulate [0, 1, 2] [0, 1, 2] [loop.extend l (aloop.fields 1 2 0 3)]
          = ([[0, 4, 0], [0, 4, 0], [0, 4, 0]], [4, 4, 4])"
    by (simp add: accumulate_def loop_step_def id_dict_012 add_slice2_def add_slice_def
        in_slice_def upt_rec l loop.extend_def aloop.fields_def numeral_3_eq_3)
  have "p_inloop_dense [0, 1, 2] [0, 1, 2] [loop.extend l (aloop.fields 1 2 0 3)]
          = [[Finite 0, Finite 1, Finite 0], [Finite 0, Finite 1, Finite 0],
             [Finite 0, Finite 1, Finite 0]]"
    by (simp add: p_inloop_dense_def acc np_divide_def true_divide_def)
  with alloc acc show ?thesis by (simp add: fi)
qed


text \<open>
  Claim C1, as amended. Genes at TSS 100, 500, 900 and elements at centers 50, 600, 1000,
  with one loop from 80 to 950 of count 4: the gene bins are 0 and 3 and the element bins
  are 1 and 2 (only the center 600 lies between the anchors), so the loop adds 4 to the
  cells of element rank 1 only; every gene total is 4, since the total of a gene grows by
  the count once per loop; the normalised matrix is 1 at element rank 1 and 0 elsewhere.
\<close>

theorem scenario_actual:
  assumes "map gene_tss genes = [100, 500, 900]"
    and "map center elements = [50, 600, 1000]"
    and "center1 l = 80" "center2 l = 950" "count l = 4"
  shows "alloc_pinloop genes elements [l] = Inr [loop.extend l (aloop.fields 1 2 0 3)]
       \<and> accumulate (frame_index genes) (frame_index elements)
            [loop.extend l (aloop.fields 1 2 0 3)]
          = ([[0, 4, 0], [0, 4, 0], [0, 4, 0]], [4, 4, 4])
       \<and> p_inloop_dense (frame_index genes) (frame_index elements)
            [loop.extend l (aloop.fields 1 2 0 3)]
          = [[Finite 0, Finite 1, Finite 0], [Finite 0, Finite 1, Finite 0],
             [Finite 0, Finite 1, Finite 0]]"
  using assms by (rule scenario_values)

theorem scenario_actual_witness:
  "map gene_tss [(''g0'', ''G0'', 100), (''g1'', ''G1'', 500), (''g2'', ''G2'', 900)] = [100, 500, 900]
   \<and> map center [(''e0'', 40, 60), (''e1'', 590, 610), (''e2'', 990, 1010)] = [50, 600, 1000]
   \<and> alloc_pinloop [(''g0'', ''G0'', 100), (''g1'', ''G1'', 500), (''g2'', ''G2'', 900)]
        [(''e0'', 40, 60), (''e1'', 590, 610), (''e2'', 990, 1010)]
        [\<lparr>chr = ''chr1'', center1 = 80, center2 = 950, loop_length = 870, count = 4\<rparr>]
      = Inr [\<lparr>chr = ''chr1'', center1 = 80, center2 = 950, loop_length = 870, count = 4,
          atac_start = 1, atac_end = 2, rnaseq_start = 0, rnaseq_end = 3\<rparr>]
   \<and> p_inloop_dense (frame_index ([(''g0'', ''G0'', 100), (''g1'', ''G1'', 500), (''g2'', ''G2'', 900)] :: gene list))
        (frame_index ([(''e0'', 40, 60), (''e1'', 590, 610), (''e2'', 990, 1010)] :: element list))
        [\<lparr>chr = ''chr1'', center1 = 80, center2 = 950, loop_length = 870, count = 4,
          atac_start = 1, atac_end = 2, rnaseq_start = 0, rnaseq_end = 3\<rparr>]
      = [[Finite 0, Finite 1, Finite 0], [Finite 0, Finite 1, Finite 0],
         [Finite 0, Finite 1, Finite 0]]"
proof -
  have g: "map gene_tss [(''g0'', ''G0'', 100), (''g1'', ''G1'', 500), (''g2'', ''G2'', 900)] = [100, 500, 900]" by simp
  have e: "map center [(''e0'', 40, 60), (''e1'', 590, 610), (''e2'', 990, 1010)] = [50, 600, 1000]" by simp
  show ?thesis
    using scenario_actual[OF g e, of "\<lparr>chr = ''chr1'', center1 = 80, center2 = 950, loop_length = 870, count = 4\<rparr>"] g e
    by (simp add: loop.extend_def aloop.fields_def)
qed

theorem scenario_claimed_counterexample:
  "alloc_pinloop [(''g0'', ''G0'', 100), (''g1'', ''G1'', 500), (''g2'', ''G2'', 900)]
        [(''e0'', 40, 60), (''e1'', 590, 610), (''e2'', 990, 1010)]
        [\<lparr>chr = ''chr1'', center1 = 80, center2 = 950, loop_length = 870, count = 4\<rparr>]
      = Inr [\<lparr>chr = ''chr1'', center1 = 80, center2 = 950, loop_length = 870, count = 4,
          atac_start = 1, atac_end = 2, rnaseq_start = 0, rnaseq_end = 3\<rparr>]
   \<and> [\<lparr>chr = ''chr1'', center1 = 80, center2 = 950, loop_length = 870, count = 4,
          atac_start = 1, atac_end = 2, rnaseq_start = 0, rnaseq_end = 3\<rparr>]
      \<noteq> [\<lparr>chr = ''chr1'', center1 = 80, center2 = 950, loop_length = 870, count = 4,
          atac_start = 0, atac_end = 3, rnaseq_start = 0, rnaseq_end = 3\<rparr>]
   \<and> accumulate (frame_index ([(''g0'', ''G0'', 100), (''g1'', ''G1'', 500), (''g2'', ''G2'', 900)] :: gene list))
        (frame_index ([(''e0'', 40, 60), (''e1'', 590, 610), (''e2'', 990, 1010)] :: element list))
        [\<lparr>chr = ''chr1'', center1 = 80, center2 = 950, loop_length = 870, count = 4,
          atac_start = 1, atac_end = 2, rnaseq_start = 0, rnaseq_end = 3\<rparr>]
      \<noteq> ([[4, 4, 4], [4, 4, 4], [4, 4, 4]], [12, 12, 12])
   \<and> p_inloop_dense (frame_index ([(''g0'', ''G0'', 100), (''g1'', ''G1'', 500), (''g2'', ''G2'', 900)] :: gene list))
        (frame_index ([(''e0'', 40, 60), (''e1'', 590, 610), (''e2'', 990, 1010)] :: element list))
        [\<lparr>chr = ''chr1'', center1 = 80, center2 = 950, loop_length = 870, count = 4,
          atac_start = 1, atac_end = 2, rnaseq_start = 0, rnaseq_end = 3\<rparr>]
      \<noteq> [[Finite (1 / 3), Finite (1 / 3), Finite (1 / 3)],
          [Finite (1 / 3), Finite (1 / 3), Finite (1 / 3)],
          [Finite (1 / 3), Finite (1 / 3), Finite (1 / 3)]]"
proof -
  have g: "map gene_tss [(''g0'', ''G0'', 100), (''g1'', ''G1'', 500), (''g2'', ''G2'', 900)] = [100, 500, 900]" by simp
  have e: "map center [(''e0'', 40, 60), (''e1'', 590, 610), (''e2'', 990, 1010)] = [50, 600, 1000]" by simp
  show ?thesis
    using scenario_values[OF g e, of "\<lparr>chr = ''chr1'', center1 = 80, center2 = 950, loop_length = 870, count = 4\<rparr>"]
    by (simp add: loop.extend_def aloop.fields_def)
qed

subsection \<open>The cutoff on the loop length\<close>

lemma chrom_pinloop_filter:
  "chrom_pinloop genes elements (filter (\<lambda>l. loop_length l < 1000000) ls)
   = chrom_pinloop genes elements ls"
  by (simp add: chrom_pinloop_def)

lemma process_chr_filter:
  "process_chr (filter (\<lambda>l. loop_length l < 1000000) chiapet) chrm t = process_chr chiapet chrm t"
proof -
  have swap: "filter (\<lambda>l. chr l = chrm) (filter (\<lambda>l. loop_length l < 1000000) chiapet)
      = filter (\<lambda>l. loop_length l < 1000000) (filter (\<lambda>l. chr l = chrm) chiapet)"
    by (simp add: conj_commute)
  have eq: "chrom_pinloop g e (filter (\<lambda>l. chr l = chrm)
                (filter (\<lambda>l. loop_length l < 1000000) chiapet))
          = chrom_pinloop g e (filter (\<lambda>l. chr l = chrm) chiapet)" for g e
    by (simp only: swap chrom_pinloop_filter)
  show ?thesis
    unfolding process_chr_def Let_def eq by (rule refl)
qed

lemma run_chromosomes_filter:
  "run_chromosomes (filter (\<lambda>l. loop_length l < 1000000) chiapet) chrms t
   = run_chromosomes chiapet chrms t"
  by (induction chrms arbitrary: t) (simp_all add: process_chr_filter split: sum.splits)

lemma pinloop_main_filter:
  "pinloop_main (filter (\<lambda>l. loop_length l < 1000000) chiapet) table = pinloop_main chiapet table"
  by (simp add: pinloop_main_def run_chromosomes_filter)

text \<open>
  Claim C3. A loop whose \<open>loop_length\<close> is at least 1,000,000 is removed before binning and
  accumulation: the output of the whole run is the same with such a loop at any place of
  the catalog as without it, the matrix of a chromosome likewise, and the output depends
  on the catalog only through its loops of \<open>loop_length\<close> below 1,000,000.
\<close>

theorem long_loops_excluded:
  assumes "1000000 \<le> loop_length l"
  shows "pinloop_main (xs @ l # ys) table = pinloop_main (xs @ ys) table
       \<and> chrom_pinloop genes elements (xs @ l # ys) = chrom_pinloop genes elements (xs @ ys)
       \<and> pinloop_main chiapet table
           = pinloop_main (filter (\<lambda>l. loop_length l < 1000000) chiapet) table"
proof -
  have f: "filter (\<lambda>l. loop_length l < 1000000) (xs @ l # ys)
         = filter (\<lambda>l. loop_length l < 1000000) (xs @ ys)"
    using assms by simp
  have "pinloop_main (xs @ l # ys) table
      = pinloop_main (filter (\<lambda>l. loop_length l < 1000000) (xs @ l # ys)) table"
    by (simp only: pinloop_main_filter)
  also have "\<dots> = pinloop_main (xs @ ys) table"
    by (simp only: f pinloop_main_filter)
  finally have a: "pinloop_main (xs @ l # ys) table = pinloop_main (xs @ ys) table" .
  have "chrom_pinloop genes elements (xs @ l # ys)
      = chrom_pinloop genes elements (filter (\<lambda>l. loop_length l < 1000000) (xs @ l # ys))"
    by (simp only: chrom_pinloop_filter)
  also have "\<dots> = chrom_pinloop genes elements (xs @ ys)"
    by (simp only: f chrom_pinloop_filter)
  finally have b: "chrom_pinloop genes elements (xs @ l # ys)
      = chrom_pinloop genes elements (xs @ ys)" .
  show ?thesis using a b by (simp add: pinloop_main_filter)
qed

theorem long_loops_excluded_witness:
  "(1000000 :: rat) \<le> loop_length \<lparr>chr = ''chr1'', center1 = 50, center2 = 2000000,
        loop_length = 1999950, count = 9\<rparr>
   \<and> pinloop_main
        [\<lparr>chr = ''chr1'', center1 = 100, center2 = 1000, loop_length = 900, count = 4\<rparr>,
         \<lparr>chr = ''chr1'', center1 = 50, center2 = 2000000, loop_length = 1999950, count = 9\<rparr>]
        [\<lparr>ElementChr = ''chr1'', ElementStart = 590, ElementEnd = 610, ElementName = ''e1'',
          GeneEnsemblID = ''g1'', GeneSymbol = ''G1'', GeneTSS = 500, others = []\<rparr>]
      = Inr [\<lparr>ElementChr = ''chr1'', ElementStart = 590, ElementEnd = 610, ElementName = ''e1'',
          GeneEnsemblID = ''g1'', GeneSymbol = ''G1'', GeneTSS = 500,
          others = [(''Pinloop'', Num (Finite 1))]\<rparr>]"
proof -
  let ?long = "\<lparr>chr = ''chr1'', center1 = 50, center2 = 2000000,
        loop_length = 1999950, count = 9 :: rat\<rparr>"
  let ?short = "\<lparr>chr = ''chr1'', center1 = 100, center2 = 1000, loop_length = 900, count = 4 :: rat\<rparr>"
  let ?t = "[\<lparr>ElementChr = ''chr1'', ElementStart = 590, ElementEnd = 610, ElementName = ''e1'',
          GeneEnsemblID = ''g1'', GeneSymbol = ''G1'', GeneTSS = 500, others = []\<rparr>]"
  have h: "(1000000 :: rat) \<le> loop_length ?long" by simp
  have "pinloop_main ([?short] @ ?long # []) ?t = pinloop_main ([?short] @ []) ?t"
    using long_loops_excluded[OF h, of "[?short]" "[]" ?t] by blast
  moreover have "pinloop_main [?short] ?t = Inr [\<lparr>ElementChr = ''chr1'', ElementStart = 590, ElementEnd = 610, ElementName = ''e1'',
          GeneEnsemblID = ''g1'', GeneSymbol = ''G1'', GeneTSS = 500,
          others = [(''Pinloop'', Num (Finite 1))]\<rparr>]"
    by (simp add: pinloop_main_def set_column_def process_chr_def genes_of_def elements_of_def
        chrom_pinloop_def alloc_pinloop_def axis_bins_def np_searchsorted_def Let_def frame_index_def
        searchsorted_def bisect_left.simps p_inloop_dense_def accumulate_def loop_step_def
        id_dict_def add_slice2_def add_slice_def in_slice_def np_divide_def true_divide_def np_T_def
        lookup_loc_def positions_def assign_pinloop_def loop.extend_def aloop.fields_def)
  ultimately show ?thesis using h by simp
qed

subsection \<open>Bins and dictionaries\<close>

lemma index0_frame_index: "length df \<noteq> 0 \<Longrightarrow> index0 (frame_index df) = Inr 0"
  by (cases df) (simp_all add: frame_index_def upt_rec)

lemma axis_bins_Inr:
  "axis_bins df arr keys =
     Inr (if length df \<noteq> 0 then map int (np_searchsorted arr keys)
          else replicate (length keys) 0)"
  by (simp add: axis_bins_def index0_frame_index)

lemma alloc_pinloop_eq:
  "alloc_pinloop df_rna df_atac ls =
     Inr (map (\<lambda>i. loop.extend (ls ! i) (aloop.fields
                ((if length df_atac \<noteq> 0 then map int (np_searchsorted (map center df_atac) (map center1 ls)) else replicate (length (map center1 ls)) 0) ! i)
                ((if length df_atac \<noteq> 0 then map int (np_searchsorted (map center df_atac) (map center2 ls)) else replicate (length (map center2 ls)) 0) ! i)
                ((if length df_rna \<noteq> 0 then map int (np_searchsorted (map (\<lambda>g. of_int (gene_tss g)) df_rna) (map center1 ls)) else replicate (length (map center1 ls)) 0) ! i)
                ((if length df_rna \<noteq> 0 then map int (np_searchsorted (map (\<lambda>g. of_int (gene_tss g)) df_rna) (map center2 ls)) else replicate (length (map center2 ls)) 0) ! i)))
           [0..<length ls])"
  by (simp add: alloc_pinloop_def axis_bins_Inr)

lemma alloc_pinloop_returns: "\<exists>als. alloc_pinloop df_rna df_atac ls = Inr als"
  by (simp add: alloc_pinloop_eq)

lemma aloop_count [simp]: "count (loop.extend l (aloop.fields a b c d)) = count l"
  by (simp add: loop.extend_def aloop.fields_def)

lemma alloc_pinloop_counts:
  assumes "alloc_pinloop df_rna df_atac ls = Inr als" and "\<forall>l\<in>set ls. 0 \<le> count l"
  shows "\<forall>a\<in>set als. 0 \<le> count a"
  using assms by (auto simp: alloc_pinloop_eq)

lemma alloc_pinloop_sorted:
  assumes sg: "sorted (map gene_tss df_rna)" and se: "sorted (map center df_atac)"
  shows "alloc_pinloop df_rna df_atac ls =
     Inr (map (\<lambda>l. loop.extend l (aloop.fields
                (if length df_atac \<noteq> 0 then int (searchsorted (map center df_atac) (center1 l)) else 0)
                (if length df_atac \<noteq> 0 then int (searchsorted (map center df_atac) (center2 l)) else 0)
                (if length df_rna \<noteq> 0 then int (searchsorted (map (\<lambda>g. of_int (gene_tss g)) df_rna) (center1 l)) else 0)
                (if length df_rna \<noteq> 0 then int (searchsorted (map (\<lambda>g. of_int (gene_tss g)) df_rna) (center2 l)) else 0)))
           ls)"
proof -
  have st: "sorted (map (\<lambda>g. (of_int (gene_tss g) :: rat)) df_rna)"
    using sg by (simp add: sorted_map sorted_wrt_iff_nth_less)
  have c: "np_searchsorted arr (map f ls) ! i = searchsorted arr (f (ls ! i))"
    if "sorted arr" "i < length ls" for arr :: "rat list" and f i
    using that by (simp add: np_searchsorted_sorted)
  show ?thesis
    unfolding alloc_pinloop_eq
    by (rule arg_cong[where f = Inr], rule nth_equalityI) (simp_all add: c se st)
qed

lemma aloop_fields [simp]:
  "atac_start (loop.extend l (aloop.fields a b c d)) = a"
  "atac_end (loop.extend l (aloop.fields a b c d)) = b"
  "rnaseq_start (loop.extend l (aloop.fields a b c d)) = c"
  "rnaseq_end (loop.extend l (aloop.fields a b c d)) = d"
  by (simp_all add: loop.extend_def aloop.fields_def)

lemma np_max_frame_index:
  "df \<noteq> [] \<Longrightarrow> np_max (frame_index df) = Lab (int (length df) - 1)"
proof -
  assume ne: "df \<noteq> []"
  then obtain n where n: "length df = Suc n" by (cases df) auto
  have fi: "frame_index df = 0 # map int [1..<Suc n]"
    by (simp add: frame_index_def n upt_rec[of 0])
  have "fold max (map int [1..<Suc n]) 0 = Max (set (0 # map int [1..<Suc n]))"
    by (simp only: Max.set_eq_fold)
  also have "\<dots> = int n"
  proof (rule Max_eqI)
    show "finite (set (0 # map int [1..<Suc n]))" by simp
    show "int n \<in> set (0 # map int [1..<Suc n])" by (cases n) auto
    fix y assume "y \<in> set (0 # map int [1..<Suc n])"
    then show "y \<le> int n" by auto
  qed
  finally show ?thesis by (simp add: fi n)
qed

lemma id_dict_frame_index:
  assumes "df \<noteq> []" "k \<le> length df"
  shows "id_dict (frame_index df) (Lab (int k)) = Some k"
proof -
  let ?n = "length df"
  have keys: "map Lab (frame_index df) @ [label_succ (np_max (frame_index df))]
            = map (\<lambda>i. Lab (int i)) [0..<?n + 1]"
    using assms(1) by (simp add: np_max_frame_index) (simp add: frame_index_def)
  have z: "zip (map (\<lambda>i. Lab (int i)) [0..<?n + 1]) [0..<?n + 1]
         = map (\<lambda>i. (Lab (int i), i)) [0..<?n + 1]"
    by (simp add: zip_map1 zip_same_conv_map)
  have d: "distinct (map fst (rev (map (\<lambda>i. (Lab (int i), i)) [0..<?n + 1])))"
    by (auto simp: rev_map[symmetric] distinct_map comp_def inj_on_def)
  have m: "(Lab (int k), k) \<in> set (rev (map (\<lambda>i. (Lab (int i), i)) [0..<?n + 1]))"
    using assms(2) by auto
  have len: "length (frame_index df) = ?n" by (simp add: frame_index_def)
  show ?thesis
    unfolding id_dict_def keys len z
    by (rule map_of_is_SomeI[OF d m])
qed

lemma id_dict_empty: "id_dict [] (Lab k) = None"
  by (simp add: id_dict_def)

lemma in_slice_empty: "b \<le> a \<Longrightarrow> \<not> in_slice (Some a) (Some b) n i"
  by (simp add: in_slice_def)

lemma add_slice_empty: "b \<le> a \<Longrightarrow> add_slice (Some a) (Some b) c xs = xs"
  by (simp add: add_slice_def in_slice_empty map_nth)

lemma add_slice2_empty: "b \<le> a \<Longrightarrow> add_slice2 (Some a) (Some b) c0 c1 c m = m"
  by (simp add: add_slice2_def in_slice_empty map_nth)

lemma add_slice_Nil [simp]: "add_slice a b c [] = []"
  by (simp add: add_slice_def)

lemma add_slice2_Nil [simp]: "add_slice2 r0 r1 c0 c1 c [] = []"
  by (simp add: add_slice2_def)

lemma takeWhile_length_mono:
  "(\<And>x. P x \<Longrightarrow> Q x) \<Longrightarrow> length (takeWhile P xs) \<le> length (takeWhile Q xs)"
  by (induction xs) auto

lemma searchsorted_mono:
  fixes arr :: "'a::linorder list"
  assumes "sorted arr" "c2 \<le> c1"
  shows "searchsorted arr c2 \<le> searchsorted arr c1"
  unfolding searchsorted_takeWhile[OF assms(1)]
  using assms(2) by (intro takeWhile_length_mono) auto

lemma sorted_tss:
  "sorted (map gene_tss genes) \<Longrightarrow> sorted (map (\<lambda>g. (of_int (gene_tss g) :: rat)) genes)"
  by (simp add: sorted_map sorted_wrt_iff_nth_less)

lemma bisect_left_range:
  "lo \<le> hi \<Longrightarrow> lo \<le> bisect_left arr key lo hi \<and> bisect_left arr key lo hi \<le> hi"
proof (induction arr key lo hi rule: bisect_left.induct)
  case (1 arr key lo hi)
  show ?case
  proof (cases "lo < hi")
    case False
    with "1.prems" show ?thesis by (simp add: bisect_left.simps)
  next
    case True
    show ?thesis
    proof (cases "arr ! (lo + (hi - lo) div 2) < key")
      case lt: True
      have "lo + (hi - lo) div 2 + 1 \<le> hi" using True by auto
      from "1.IH"(1)[OF True lt this] show ?thesis
        using True lt by (subst (1 2) bisect_left.simps) auto
    next
      case ge: False
      have "lo \<le> lo + (hi - lo) div 2" by simp
      from "1.IH"(2)[OF True ge this] show ?thesis
        using True ge by (subst (1 2) bisect_left.simps) auto
    qed
  qed
qed

lemma searchsorted_le_length: "searchsorted arr key \<le> length arr"
  using bisect_left_range[of 0 "length arr" arr key] by (simp add: searchsorted_def)

subsection \<open>Loops whose anchors are not in order\<close>

lemma loop_step_reversed:
  fixes c1 c2 :: rat
  assumes s: "sorted (map gene_tss genes)" and c: "c2 \<le> c1"
    and a: "rnaseq_start a = (if length genes \<noteq> 0
                              then int (searchsorted (map (\<lambda>g. of_int (gene_tss g)) genes) c1) else 0)"
           "rnaseq_end a = (if length genes \<noteq> 0
                            then int (searchsorted (map (\<lambda>g. of_int (gene_tss g)) genes) c2) else 0)"
    and sh: "length (fst acc) = length genes" "length (snd acc) = length genes"
  shows "loop_step (frame_index genes) enh_ids a acc = acc"
proof (cases "genes = []")
  case True
  then have "fst acc = []" "snd acc = []" using sh by simp_all
  then have "loop_step (frame_index genes) enh_ids a acc = (fst acc, snd acc)"
    by (simp add: loop_step_def Let_def)
  then show ?thesis by simp
next
  case False
  let ?tss = "map (\<lambda>g. (of_int (gene_tss g) :: rat)) genes"
  have st: "sorted ?tss" using s by (rule sorted_tss)
  have le: "searchsorted ?tss c2 \<le> searchsorted ?tss c1"
    using st c by (rule searchsorted_mono)
  have b1: "searchsorted ?tss c1 \<le> length genes" and b2: "searchsorted ?tss c2 \<le> length genes"
    using searchsorted_le_length[of ?tss c1] searchsorted_le_length[of ?tss c2] by simp_all
  have d1: "id_dict (frame_index genes) (Lab (rnaseq_start a)) = Some (searchsorted ?tss c1)"
    using False id_dict_frame_index[OF False b1] by (simp add: a)
  have d2: "id_dict (frame_index genes) (Lab (rnaseq_end a)) = Some (searchsorted ?tss c2)"
    using False id_dict_frame_index[OF False b2] by (simp add: a)
  have "loop_step (frame_index genes) enh_ids a acc = (fst acc, snd acc)"
    by (simp add: loop_step_def Let_def d1 d2 add_slice_empty[OF le] add_slice2_empty[OF le])
  then show ?thesis by simp
qed

lemma alloc_pinloop_gene_bins:
  assumes s: "sorted (map gene_tss genes)"
    and a: "alloc_pinloop genes elements ls = Inr als" and i: "i < length ls"
  shows "rnaseq_start (als ! i) = (if length genes \<noteq> 0
           then int (searchsorted (map (\<lambda>g. of_int (gene_tss g)) genes) (center1 (ls ! i))) else 0)"
    and "rnaseq_end (als ! i) = (if length genes \<noteq> 0
           then int (searchsorted (map (\<lambda>g. of_int (gene_tss g)) genes) (center2 (ls ! i))) else 0)"
proof -
  have st: "sorted (map (\<lambda>g. (of_int (gene_tss g) :: rat)) genes)" using s by (rule sorted_tss)
  show "rnaseq_start (als ! i) = (if length genes \<noteq> 0
           then int (searchsorted (map (\<lambda>g. of_int (gene_tss g)) genes) (center1 (ls ! i))) else 0)"
    using a i by (auto simp: alloc_pinloop_eq np_searchsorted_sorted[OF st])
  show "rnaseq_end (als ! i) = (if length genes \<noteq> 0
           then int (searchsorted (map (\<lambda>g. of_int (gene_tss g)) genes) (center2 (ls ! i))) else 0)"
    using a i by (auto simp: alloc_pinloop_eq np_searchsorted_sorted[OF st])
qed

lemma accumulate_reversed:
  assumes s: "sorted (map gene_tss genes)" and se: "sorted (map center elements)"
    and c: "center2 l \<le> center1 l"
    and a: "alloc_pinloop genes elements (xs @ l # ys) = Inr als"
    and a': "alloc_pinloop genes elements (xs @ ys) = Inr als'"
  shows "accumulate (frame_index genes) (frame_index elements) als
       = accumulate (frame_index genes) (frame_index elements) als'"
proof -
  define bin where "bin = (\<lambda>l. loop.extend l (aloop.fields
                (if length elements \<noteq> 0 then int (searchsorted (map center elements) (center1 l)) else 0)
                (if length elements \<noteq> 0 then int (searchsorted (map center elements) (center2 l)) else 0)
                (if length genes \<noteq> 0 then int (searchsorted (map (\<lambda>g. of_int (gene_tss g)) genes) (center1 l)) else 0)
                (if length genes \<noteq> 0 then int (searchsorted (map (\<lambda>g. of_int (gene_tss g)) genes) (center2 l)) else 0)))"
  have als: "als = map bin xs @ bin l # map bin ys"
    using a by (simp add: alloc_pinloop_sorted[OF s se] bin_def)
  have als': "als' = map bin xs @ map bin ys"
    using a' by (simp add: alloc_pinloop_sorted[OF s se] bin_def)
  let ?init = "(replicate (length (frame_index genes)) (replicate (length (frame_index elements)) (0::rat)),
      replicate (length (frame_index genes)) (0::rat))"
  let ?acc = "fold (loop_step (frame_index genes) (frame_index elements)) (map bin xs) ?init"
  have sh: "length (fst ?acc) = length genes" "length (snd ?acc) = length genes"
    using fold_loop_step_shape[of ?init "length genes" "length elements"
        "frame_index genes" "frame_index elements" "map bin xs"]
    by (simp_all add: frame_index_def)
  have "loop_step (frame_index genes) (frame_index elements) (bin l) ?acc = ?acc"
    by (rule loop_step_reversed[OF s c _ _ sh]) (simp_all add: bin_def)
  then show ?thesis
    by (simp add: accumulate_def als als')
qed

text \<open>
  The search for a column of keys carries its bounds from one key to the next, so on a
  frame that is not ascending the bins of a loop depend on the loops before it. Genes
  at 100, 500, 900 and elements at 50, 1000, 600: the loop from 80 to 650 alone gets the
  empty element range 1 to 1, and after the loop from 650 to 150 it gets the range 1 to 3.
\<close>

lemma carried_bounds_example:
  "chrom_pinloop [(''g0'', ''G0'', 100), (''g1'', ''G1'', 500), (''g2'', ''G2'', 900)]
        [(''e0'', 40, 60), (''e1'', 990, 1010), (''e2'', 590, 610)]
        [\<lparr>chr = ''chr1'', center1 = 80, center2 = 650, loop_length = 570, count = 4\<rparr>]
     = Inr [[Finite 0, Finite 0, Finite 0], [Finite 0, Finite 0, Finite 0],
            [Finite 0, Finite 0, Finite 0]]
   \<and> chrom_pinloop [(''g0'', ''G0'', 100), (''g1'', ''G1'', 500), (''g2'', ''G2'', 900)]
        [(''e0'', 40, 60), (''e1'', 990, 1010), (''e2'', 590, 610)]
        [\<lparr>chr = ''chr1'', center1 = 650, center2 = 150, loop_length = 500, count = 4\<rparr>,
         \<lparr>chr = ''chr1'', center1 = 80, center2 = 650, loop_length = 570, count = 4\<rparr>]
     = Inr [[Finite 0, Finite 0, Finite 0], [Finite 1, Finite 1, Finite 0],
            [Finite 1, Finite 1, Finite 0]]"
  by (simp add: chrom_pinloop_def alloc_pinloop_def axis_bins_def np_searchsorted_def Let_def frame_index_def
        searchsorted_def bisect_left.simps p_inloop_dense_def accumulate_def loop_step_def
        id_dict_def add_slice2_def add_slice_def in_slice_def np_divide_def true_divide_def np_T_def
        loop.extend_def aloop.fields_def)

text \<open>
  Claim C5, as amended. The bins of a loop are used as they are computed: nothing orders
  the pair. On a gene frame in ascending order of GeneTSS, a loop whose \<open>center1\<close> is not
  below its \<open>center2\<close> gets an empty gene range, so its step adds nothing to the matrix
  and nothing to the gene totals. When the element frame is in ascending order of center
  as well, the accumulated matrix and totals, and the matrix of the chromosome, are those
  of the catalog without that loop.
\<close>

theorem reversed_loop_adds_nothing:
  assumes "sorted (map gene_tss genes)" and "center2 l \<le> center1 l"
  shows "(alloc_pinloop genes elements (xs @ l # ys) = Inr als
          \<and> length (fst acc) = length genes \<and> length (snd acc) = length genes
          \<longrightarrow> loop_step (frame_index genes) (frame_index elements) (als ! length xs) acc = acc)
       \<and> (sorted (map center elements) \<longrightarrow>
            (alloc_pinloop genes elements (xs @ l # ys) = Inr als
             \<and> alloc_pinloop genes elements (xs @ ys) = Inr als'
             \<longrightarrow> accumulate (frame_index genes) (frame_index elements) als
               = accumulate (frame_index genes) (frame_index elements) als')
            \<and> chrom_pinloop genes elements (xs @ l # ys) = chrom_pinloop genes elements (xs @ ys))"
proof (intro conjI impI)
  assume h: "alloc_pinloop genes elements (xs @ l # ys) = Inr als
          \<and> length (fst acc) = length genes \<and> length (snd acc) = length genes"
  then have a: "alloc_pinloop genes elements (xs @ l # ys) = Inr als"
    and sh: "length (fst acc) = length genes" "length (snd acc) = length genes" by simp_all
  have i: "length xs < length (xs @ l # ys)" by simp
  have n: "(xs @ l # ys) ! length xs = l" by simp
  note b = alloc_pinloop_gene_bins[OF assms(1) a i, unfolded n]
  show "loop_step (frame_index genes) (frame_index elements) (als ! length xs) acc = acc"
    using assms b sh by (rule loop_step_reversed)
next
  assume se: "sorted (map center elements)"
  assume "alloc_pinloop genes elements (xs @ l # ys) = Inr als
             \<and> alloc_pinloop genes elements (xs @ ys) = Inr als'"
  then show "accumulate (frame_index genes) (frame_index elements) als
               = accumulate (frame_index genes) (frame_index elements) als'"
    using accumulate_reversed[OF assms(1) se assms(2)] by blast
next
  assume se: "sorted (map center elements)"
  let ?f = "filter (\<lambda>l. loop_length l < 1000000)"
  show "chrom_pinloop genes elements (xs @ l # ys) = chrom_pinloop genes elements (xs @ ys)"
  proof (cases "loop_length l < 1000000")
    case True
    obtain als1 where 1: "alloc_pinloop genes elements (?f xs @ l # ?f ys) = Inr als1"
      using alloc_pinloop_returns by blast
    obtain als2 where 2: "alloc_pinloop genes elements (?f xs @ ?f ys) = Inr als2"
      using alloc_pinloop_returns by blast
    from accumulate_reversed[OF assms(1) se assms(2) 1 2] 1 2 True show ?thesis
      by (simp add: chrom_pinloop_def p_inloop_dense_def)
  next
    case False
    then show ?thesis by (simp add: chrom_pinloop_def)
  qed
qed

theorem reversed_loop_adds_nothing_witness:
  "sorted (map gene_tss [(''g0'', ''G0'', 100), (''g1'', ''G1'', 500), (''g2'', ''G2'', 900)])
   \<and> sorted (map center [(''e0'', 40, 60), (''e1'', 590, 610), (''e2'', 990, 1010)])
   \<and> center2 \<lparr>chr = ''chr1'', center1 = 950, center2 = 80, loop_length = 870, count = 4\<rparr>
       \<le> center1 \<lparr>chr = ''chr1'', center1 = 950, center2 = 80, loop_length = 870, count = 4\<rparr>
   \<and> chrom_pinloop [(''g0'', ''G0'', 100), (''g1'', ''G1'', 500), (''g2'', ''G2'', 900)]
        [(''e0'', 40, 60), (''e1'', 590, 610), (''e2'', 990, 1010)]
        [\<lparr>chr = ''chr1'', center1 = 80, center2 = 950, loop_length = 870, count = 4\<rparr>,
         \<lparr>chr = ''chr1'', center1 = 950, center2 = 80, loop_length = 870, count = 4\<rparr>]
     = Inr [[Finite 0, Finite 0, Finite 0], [Finite 1, Finite 1, Finite 1],
            [Finite 0, Finite 0, Finite 0]]"
proof -
  let ?G = "[(''g0'', ''G0'', 100), (''g1'', ''G1'', 500), (''g2'', ''G2'', 900)] :: gene list"
  let ?E = "[(''e0'', 40, 60), (''e1'', 590, 610), (''e2'', 990, 1010)] :: element list"
  let ?L = "\<lparr>chr = ''chr1'', center1 = 80, center2 = 950, loop_length = 870, count = 4\<rparr>"
  let ?R = "\<lparr>chr = ''chr1'', center1 = 950, center2 = 80, loop_length = 870, count = 4\<rparr>"
  have s: "sorted (map gene_tss ?G)" by simp
  have c: "center2 ?R \<le> center1 ?R" by simp
  have se: "sorted (map center ?E)" by simp
  have "chrom_pinloop ?G ?E ([?L] @ ?R # []) = chrom_pinloop ?G ?E ([?L] @ [])"
    using se reversed_loop_adds_nothing[OF s c, where elements = ?E and xs = "[?L]" and ys = "[]"]
    by blast
  moreover have "chrom_pinloop ?G ?E [?L] = Inr [[Finite 0, Finite 0, Finite 0], [Finite 1, Finite 1, Finite 1],
            [Finite 0, Finite 0, Finite 0]]"
    by (simp add: chrom_pinloop_def alloc_pinloop_def axis_bins_def np_searchsorted_def Let_def frame_index_def
        searchsorted_def bisect_left.simps p_inloop_dense_def accumulate_def loop_step_def
        id_dict_def add_slice2_def add_slice_def in_slice_def np_divide_def true_divide_def np_T_def
        loop.extend_def aloop.fields_def)
  ultimately show ?thesis using s se c by simp
qed

theorem unordered_anchors_counterexample:
  "alloc_pinloop [(''g0'', ''G0'', 100), (''g1'', ''G1'', 500), (''g2'', ''G2'', 900)]
        [(''e0'', 40, 60), (''e1'', 590, 610), (''e2'', 990, 1010)]
        [\<lparr>chr = ''chr1'', center1 = 80, center2 = 950, loop_length = 870, count = 4\<rparr>]
     = Inr [\<lparr>chr = ''chr1'', center1 = 80, center2 = 950, loop_length = 870, count = 4,
          atac_start = 1, atac_end = 2, rnaseq_start = 0, rnaseq_end = 3\<rparr>]
   \<and> alloc_pinloop [(''g0'', ''G0'', 100), (''g1'', ''G1'', 500), (''g2'', ''G2'', 900)]
        [(''e0'', 40, 60), (''e1'', 590, 610), (''e2'', 990, 1010)]
        [\<lparr>chr = ''chr1'', center1 = 950, center2 = 80, loop_length = 870, count = 4\<rparr>]
     = Inr [\<lparr>chr = ''chr1'', center1 = 950, center2 = 80, loop_length = 870, count = 4,
          atac_start = 2, atac_end = 1, rnaseq_start = 3, rnaseq_end = 0\<rparr>]
   \<and> accumulate (frame_index ([(''g0'', ''G0'', 100), (''g1'', ''G1'', 500), (''g2'', ''G2'', 900)] :: gene list))
        (frame_index ([(''e0'', 40, 60), (''e1'', 590, 610), (''e2'', 990, 1010)] :: element list))
        [\<lparr>chr = ''chr1'', center1 = 80, center2 = 950, loop_length = 870, count = 4,
          atac_start = 1, atac_end = 2, rnaseq_start = 0, rnaseq_end = 3\<rparr>]
     = ([[0, 4, 0], [0, 4, 0], [0, 4, 0]], [4, 4, 4])
   \<and> accumulate (frame_index ([(''g0'', ''G0'', 100), (''g1'', ''G1'', 500), (''g2'', ''G2'', 900)] :: gene list))
        (frame_index ([(''e0'', 40, 60), (''e1'', 590, 610), (''e2'', 990, 1010)] :: element list))
        [\<lparr>chr = ''chr1'', center1 = 950, center2 = 80, loop_length = 870, count = 4,
          atac_start = 2, atac_end = 1, rnaseq_start = 3, rnaseq_end = 0\<rparr>]
     = ([[0, 0, 0], [0, 0, 0], [0, 0, 0]], [0, 0, 0])
   \<and> chrom_pinloop [(''g0'', ''G0'', 100), (''g1'', ''G1'', 500), (''g2'', ''G2'', 900)]
        [(''e0'', 40, 60), (''e1'', 590, 610), (''e2'', 990, 1010)]
        [\<lparr>chr = ''chr1'', center1 = 80, center2 = 950, loop_length = 870, count = 4\<rparr>]
     = Inr [[Finite 0, Finite 0, Finite 0], [Finite 1, Finite 1, Finite 1],
            [Finite 0, Finite 0, Finite 0]]
   \<and> chrom_pinloop [(''g0'', ''G0'', 100), (''g1'', ''G1'', 500), (''g2'', ''G2'', 900)]
        [(''e0'', 40, 60), (''e1'', 590, 610), (''e2'', 990, 1010)]
        [\<lparr>chr = ''chr1'', center1 = 950, center2 = 80, loop_length = 870, count = 4\<rparr>]
     = Inr [[Finite 0, Finite 0, Finite 0], [Finite 0, Finite 0, Finite 0],
            [Finite 0, Finite 0, Finite 0]]"
  by (simp add: chrom_pinloop_def alloc_pinloop_def axis_bins_def np_searchsorted_def Let_def frame_index_def
        searchsorted_def bisect_left.simps p_inloop_dense_def accumulate_def loop_step_def
        id_dict_def add_slice2_def add_slice_def in_slice_def np_divide_def true_divide_def np_T_def
        loop.extend_def aloop.fields_def)

subsection \<open>Empty gene and element frames\<close>

lemma accumulate_no_genes: "accumulate [] enh_ids als = ([], [])"
  using accumulate_shape(1,2)[of "[]" enh_ids als]
  by (cases "accumulate [] enh_ids als") simp

lemma p_inloop_dense_no_genes: "p_inloop_dense [] enh_ids als = []"
  by (simp add: p_inloop_dense_def accumulate_no_genes np_divide_def)

lemma accumulate_no_elements:
  "fst (accumulate prm_ids [] als) = replicate (length prm_ids) []"
proof (rule nth_equalityI)
  show "length (fst (accumulate prm_ids [] als)) = length (replicate (length prm_ids) [])"
    by (simp add: accumulate_shape(1))
next
  fix g assume "g < length (fst (accumulate prm_ids [] als))"
  then have g: "g < length prm_ids" by (simp add: accumulate_shape(1))
  then have "length (fst (accumulate prm_ids [] als) ! g) = 0"
    using accumulate_shape(3)[of g prm_ids "[]" als] by simp
  then show "fst (accumulate prm_ids [] als) ! g = replicate (length prm_ids) [] ! g"
    using g by simp
qed

lemma p_inloop_dense_no_elements:
  "p_inloop_dense prm_ids [] als = replicate (length prm_ids) []"
proof (rule nth_equalityI)
  show "length (p_inloop_dense prm_ids [] als) = length (replicate (length prm_ids) [])"
    by simp
next
  fix g assume "g < length (p_inloop_dense prm_ids [] als)"
  then have g: "g < length prm_ids" by simp
  then show "p_inloop_dense prm_ids [] als ! g = replicate (length prm_ids) [] ! g"
    by (simp add: nth_p_inloop_dense accumulate_no_elements)
qed

lemma alloc_pinloop_no_genes:
  assumes "alloc_pinloop [] elements loops = Inr als"
  shows "map rnaseq_start als = replicate (length loops) 0"
    and "map rnaseq_end als = replicate (length loops) 0"
proof -
  have als: "length als = length loops"
    "\<And>i. i < length loops \<Longrightarrow> rnaseq_start (als ! i) = 0 \<and> rnaseq_end (als ! i) = 0"
    using assms by (auto simp: alloc_pinloop_eq)
  show "map rnaseq_start als = replicate (length loops) 0"
    by (rule nth_equalityI) (simp_all add: als)
  show "map rnaseq_end als = replicate (length loops) 0"
    by (rule nth_equalityI) (simp_all add: als)
qed

lemma alloc_pinloop_no_elements:
  assumes "alloc_pinloop genes [] loops = Inr als"
  shows "map atac_start als = replicate (length loops) 0"
    and "map atac_end als = replicate (length loops) 0"
proof -
  have als: "length als = length loops"
    "\<And>i. i < length loops \<Longrightarrow> atac_start (als ! i) = 0 \<and> atac_end (als ! i) = 0"
    using assms by (auto simp: alloc_pinloop_eq)
  show "map atac_start als = replicate (length loops) 0"
    by (rule nth_equalityI) (simp_all add: als)
  show "map atac_end als = replicate (length loops) 0"
    by (rule nth_equalityI) (simp_all add: als)
qed

lemma process_chr_absent:
  assumes "chrm \<notin> ElementChr ` set pair_info"
  shows "process_chr chiapet chrm pair_info = Inr pair_info"
proof -
  have "filter (\<lambda>i. ElementChr (pair_info ! i) = chrm) [0..<length pair_info] = []"
    using assms by (auto simp: filter_empty_conv)
  then show ?thesis
    by (simp add: process_chr_def genes_of_def elements_of_def chrom_pinloop_def
        alloc_pinloop_eq np_T_def assign_pinloop_def)
qed

text \<open>
  Claim C8. With no genes, \<open>alloc_pinloop\<close> returns (it does not read \<open>index[0]\<close>) and
  both gene bins of every loop are 0; the matrix and the totals have no row, so the gene
  axis receives no update, and \<open>p_inloop_dense\<close> returns the empty matrix. With no
  elements, both element bins of every loop are 0 and every row of the matrix is empty,
  before and after the normalisation. In both cases the matrix of the chromosome is
  returned without an error, and the body of the loop over the chromosomes, run for a
  chromosome that has no row in the pair table, returns the table as it is.
\<close>

theorem empty_axis_guard:
  "(case alloc_pinloop [] elements loops of
      Inl e \<Rightarrow> False
    | Inr als \<Rightarrow>
        map rnaseq_start als = replicate (length loops) 0
        \<and> map rnaseq_end als = replicate (length loops) 0
        \<and> accumulate (frame_index ([] :: gene list)) (frame_index elements) als = ([], [])
        \<and> p_inloop_dense (frame_index ([] :: gene list)) (frame_index elements) als = [])
   \<and> (case alloc_pinloop genes [] loops of
      Inl e \<Rightarrow> False
    | Inr als \<Rightarrow>
        map atac_start als = replicate (length loops) 0
        \<and> map atac_end als = replicate (length loops) 0
        \<and> fst (accumulate (frame_index genes) (frame_index ([] :: element list)) als)
            = replicate (length genes) []
        \<and> p_inloop_dense (frame_index genes) (frame_index ([] :: element list)) als
            = replicate (length genes) [])
   \<and> chrom_pinloop [] elements loops = Inr (replicate (length elements) [])
   \<and> chrom_pinloop genes [] loops = Inr []
   \<and> (chrm \<notin> ElementChr ` set pair_info \<longrightarrow> process_chr chiapet chrm pair_info = Inr pair_info)"
proof -
  have fi: "frame_index ([] :: 'a list) = []" by (simp add: frame_index_def)
  have lfi: "length (frame_index genes) = length genes" by (simp add: frame_index_def)
  have a: "case alloc_pinloop [] elements loops of
      Inl e \<Rightarrow> False
    | Inr als \<Rightarrow>
        map rnaseq_start als = replicate (length loops) 0
        \<and> map rnaseq_end als = replicate (length loops) 0
        \<and> accumulate (frame_index ([] :: gene list)) (frame_index elements) als = ([], [])
        \<and> p_inloop_dense (frame_index ([] :: gene list)) (frame_index elements) als = []"
  proof -
    obtain als where als: "alloc_pinloop [] elements loops = Inr als"
      using alloc_pinloop_returns by blast
    show ?thesis
      using alloc_pinloop_no_genes[OF als]
      by (simp add: als fi accumulate_no_genes p_inloop_dense_no_genes)
  qed
  have b: "case alloc_pinloop genes [] loops of
      Inl e \<Rightarrow> False
    | Inr als \<Rightarrow>
        map atac_start als = replicate (length loops) 0
        \<and> map atac_end als = replicate (length loops) 0
        \<and> fst (accumulate (frame_index genes) (frame_index ([] :: element list)) als)
            = replicate (length genes) []
        \<and> p_inloop_dense (frame_index genes) (frame_index ([] :: element list)) als
            = replicate (length genes) []"
  proof -
    obtain als where als: "alloc_pinloop genes [] loops = Inr als"
      using alloc_pinloop_returns by blast
    show ?thesis
      using alloc_pinloop_no_elements[OF als]
      by (simp add: als fi lfi accumulate_no_elements p_inloop_dense_no_elements)
  qed
  have c: "chrom_pinloop [] elements loops = Inr (replicate (length elements) [])"
    by (simp add: chrom_pinloop_def alloc_pinloop_eq fi p_inloop_dense_no_genes np_T_def
        map_replicate_const)
  have d: "chrom_pinloop genes [] loops = Inr []"
    by (simp add: chrom_pinloop_def alloc_pinloop_eq np_T_def)
  show ?thesis using a b c d process_chr_absent by blast
qed

theorem empty_axis_guard_witness:
  "''chr2'' \<notin> ElementChr ` set [\<lparr>ElementChr = ''chr1'', ElementStart = 590, ElementEnd = 610,
        ElementName = ''e1'', GeneEnsemblID = ''g1'', GeneSymbol = ''G1'', GeneTSS = 500,
        others = []\<rparr>]
   \<and> process_chr
        [\<lparr>chr = ''chr2'', center1 = 100, center2 = 1000, loop_length = 900, count = 4\<rparr>]
        ''chr2''
        [\<lparr>ElementChr = ''chr1'', ElementStart = 590, ElementEnd = 610,
          ElementName = ''e1'', GeneEnsemblID = ''g1'', GeneSymbol = ''G1'', GeneTSS = 500,
          others = []\<rparr>]
     = Inr [\<lparr>ElementChr = ''chr1'', ElementStart = 590, ElementEnd = 610,
          ElementName = ''e1'', GeneEnsemblID = ''g1'', GeneSymbol = ''G1'', GeneTSS = 500,
          others = []\<rparr>]
   \<and> chrom_pinloop []
        [(''e0'', 40, 60), (''e1'', 590, 610)]
        [\<lparr>chr = ''chr2'', center1 = 100, center2 = 1000, loop_length = 900, count = 4\<rparr>]
     = Inr [[], []]
   \<and> chrom_pinloop
        [(''g0'', ''G0'', 100), (''g1'', ''G1'', 500), (''g2'', ''G2'', 900)]
        []
        [\<lparr>chr = ''chr2'', center1 = 100, center2 = 1000, loop_length = 900, count = 4\<rparr>]
     = Inr []"
proof -
  let ?t = "[\<lparr>ElementChr = ''chr1'', ElementStart = 590, ElementEnd = 610,
        ElementName = ''e1'', GeneEnsemblID = ''g1'', GeneSymbol = ''G1'', GeneTSS = 500,
        others = []\<rparr>]"
  let ?ls = "[\<lparr>chr = ''chr2'', center1 = 100, center2 = 1000, loop_length = 900, count = 4 :: rat\<rparr>]"
  have h: "''chr2'' \<notin> ElementChr ` set ?t" by simp
  show ?thesis
    using h empty_axis_guard[where elements = "[(''e0'', 40, 60), (''e1'', 590, 610)]"
        and loops = ?ls
        and genes = "[(''g0'', ''G0'', 100), (''g1'', ''G1'', 500), (''g2'', ''G2'', 900)]"
        and chrm = "''chr2''" and pair_info = ?t and chiapet = ?ls]
    by (simp add: numeral_2_eq_2)
qed

subsection \<open>The order of the gene frame\<close>

text \<open>
  Claim C6 does not hold of the script. The gene frame of a chromosome is the
  de-duplicated projection of the pair table's rows in their order; nothing sorts it and
  nothing checks its order before \<open>searchsorted\<close> reads it (the message printed before
  \<^verbatim>\<open>alloc_pinloop\<close> announces "sorting loops, elements and genes"). For a table whose
  rows list the gene at TSS 500 before the gene at TSS 100, the gene frame is descending,
  the loop from 200 to 700 gets the empty gene range 2 to 2, and the pair of the element
  at 600 and the gene at 500, both between the anchors, gets Pinloop 0; the same two rows
  in ascending order give that pair Pinloop 1.
\<close>

theorem unsorted_gene_frame:
  "genes_of
     [\<lparr>ElementChr = ''chr1'', ElementStart = 590, ElementEnd = 610, ElementName = ''e1'',
          GeneEnsemblID = ''gB'', GeneSymbol = ''B'', GeneTSS = 500, others = []\<rparr>,
      \<lparr>ElementChr = ''chr1'', ElementStart = 590, ElementEnd = 610, ElementName = ''e1'',
          GeneEnsemblID = ''gA'', GeneSymbol = ''A'', GeneTSS = 100, others = []\<rparr>]
     = [(''gB'', ''B'', 500), (''gA'', ''A'', 100)]
   \<and> \<not> sorted (map gene_tss (genes_of
     [\<lparr>ElementChr = ''chr1'', ElementStart = 590, ElementEnd = 610, ElementName = ''e1'',
          GeneEnsemblID = ''gB'', GeneSymbol = ''B'', GeneTSS = 500, others = []\<rparr>,
      \<lparr>ElementChr = ''chr1'', ElementStart = 590, ElementEnd = 610, ElementName = ''e1'',
          GeneEnsemblID = ''gA'', GeneSymbol = ''A'', GeneTSS = 100, others = []\<rparr>]))
   \<and> searchsorted [500, 100 :: rat] 200 = 2
   \<and> searchsorted [500, 100 :: rat] 700 = 2
   \<and> pinloop_main [\<lparr>chr = ''chr1'', center1 = 200, center2 = 700, loop_length = 500, count = 4\<rparr>]
     [\<lparr>ElementChr = ''chr1'', ElementStart = 590, ElementEnd = 610, ElementName = ''e1'',
          GeneEnsemblID = ''gB'', GeneSymbol = ''B'', GeneTSS = 500, others = []\<rparr>,
      \<lparr>ElementChr = ''chr1'', ElementStart = 590, ElementEnd = 610, ElementName = ''e1'',
          GeneEnsemblID = ''gA'', GeneSymbol = ''A'', GeneTSS = 100, others = []\<rparr>]
     = Inr
     [\<lparr>ElementChr = ''chr1'', ElementStart = 590, ElementEnd = 610, ElementName = ''e1'',
          GeneEnsemblID = ''gB'', GeneSymbol = ''B'', GeneTSS = 500, others = [(''Pinloop'', Num (Finite 0))]\<rparr>,
      \<lparr>ElementChr = ''chr1'', ElementStart = 590, ElementEnd = 610, ElementName = ''e1'',
          GeneEnsemblID = ''gA'', GeneSymbol = ''A'', GeneTSS = 100, others = [(''Pinloop'', Num (Finite 0))]\<rparr>]
   \<and> pinloop_main [\<lparr>chr = ''chr1'', center1 = 200, center2 = 700, loop_length = 500, count = 4\<rparr>]
     [\<lparr>ElementChr = ''chr1'', ElementStart = 590, ElementEnd = 610, ElementName = ''e1'',
          GeneEnsemblID = ''gA'', GeneSymbol = ''A'', GeneTSS = 100, others = []\<rparr>,
      \<lparr>ElementChr = ''chr1'', ElementStart = 590, ElementEnd = 610, ElementName = ''e1'',
          GeneEnsemblID = ''gB'', GeneSymbol = ''B'', GeneTSS = 500, others = []\<rparr>]
     = Inr
     [\<lparr>ElementChr = ''chr1'', ElementStart = 590, ElementEnd = 610, ElementName = ''e1'',
          GeneEnsemblID = ''gA'', GeneSymbol = ''A'', GeneTSS = 100, others = [(''Pinloop'', Num (Finite 0))]\<rparr>,
      \<lparr>ElementChr = ''chr1'', ElementStart = 590, ElementEnd = 610, ElementName = ''e1'',
          GeneEnsemblID = ''gB'', GeneSymbol = ''B'', GeneTSS = 500, others = [(''Pinloop'', Num (Finite 1))]\<rparr>]"
  by (simp add: pinloop_main_def set_column_def process_chr_def genes_of_def elements_of_def
        chrom_pinloop_def alloc_pinloop_def axis_bins_def np_searchsorted_def Let_def frame_index_def
        searchsorted_def bisect_left.simps p_inloop_dense_def accumulate_def loop_step_def
        id_dict_def add_slice2_def add_slice_def in_slice_def np_divide_def true_divide_def np_T_def
        lookup_loc_def positions_def assign_pinloop_def loop.extend_def aloop.fields_def)

subsection \<open>The lookup of a pair\<close>

lemma set_positions: "set (positions xs x) = {i. i < length xs \<and> xs ! i = x}"
  by (auto simp: positions_def)

lemma positions_Nil_iff: "positions xs x = [] \<longleftrightarrow> x \<notin> set xs"
  by (auto simp: positions_def filter_empty_conv in_set_conv_nth)

lemma length_positions: "length (positions xs x) = count_list xs x"
proof -
  have "filter (\<lambda>y. y = x) xs = filter (\<lambda>y. y = x) (map (\<lambda>i. xs ! i) [0..<length xs])"
    by (simp add: map_nth)
  also have "\<dots> = map (\<lambda>i. xs ! i) (positions xs x)"
    by (simp add: filter_map comp_def positions_def)
  finally have "length (filter (\<lambda>y. y = x) xs) = length (positions xs x)" by simp
  moreover have "count_list xs x = length (filter (\<lambda>y. y = x) xs)"
    by (induction xs) auto
  ultimately show ?thesis by simp
qed

lemma positions_single:
  assumes "count_list xs x = 1"
  shows "\<exists>i. positions xs x = [i] \<and> i < length xs \<and> xs ! i = x"
proof -
  have "length (positions xs x) = 1" using assms by (simp add: length_positions)
  then obtain i where i: "positions xs x = [i]"
    by (cases "positions xs x") auto
  then have "i \<in> set (positions xs x)" by simp
  then have "i < length xs" "xs ! i = x" by (simp_all add: set_positions)
  with i show ?thesis by blast
qed

lemma lookup_loc_KeyError:
  "r \<notin> set names \<or> c \<notin> set ids \<Longrightarrow> lookup_loc names ids m r c = Inl KeyError"
  by (auto simp: lookup_loc_def positions_Nil_iff[symmetric] split: list.splits)

lemma lookup_loc_only_KeyError: "lookup_loc names ids m r c = Inl e \<Longrightarrow> e = KeyError"
  by (auto simp: lookup_loc_def split: list.splits)

lemma lookups_only_KeyError: "lookups names ids m rcs = Inl e \<Longrightarrow> e = KeyError"
  by (induction names ids m rcs rule: lookups.induct)
     (auto split: sum.splits dest: lookup_loc_only_KeyError)

lemma lookups_KeyError:
  "(r, c) \<in> set rcs \<Longrightarrow> r \<notin> set names \<or> c \<notin> set ids \<Longrightarrow>
   lookups names ids m rcs = Inl KeyError"
proof (induction names ids m rcs rule: lookups.induct)
  case (1 names ids m)
  then show ?case by simp
next
  case (2 names ids m r' c' rcs)
  show ?case
  proof (cases "lookup_loc names ids m r' c'")
    case (Inl e)
    then show ?thesis using lookup_loc_only_KeyError[OF Inl] by simp
  next
    case (Inr v)
    then have "(r, c) \<noteq> (r', c')" using "2.prems"(2) lookup_loc_KeyError[of r names c ids m] by auto
    then have "(r, c) \<in> set rcs" using "2.prems"(1) by auto
    from "2.IH"[OF Inr this "2.prems"(2)] Inr show ?thesis by simp
  qed
qed

text \<open>
  Claim C7, as amended. A lookup with a label that is absent from the element index or
  from the gene index raises KeyError, and so does the list of lookups of a chromosome
  when one of its pairs has an absent label; nothing is defaulted. When both labels occur
  exactly once in their index, the lookup returns the cell of the matrix at their
  positions. When both are present and one occurs more than once, the lookup returns no
  number but the frame of all the cells selected.
\<close>

theorem lookup_loc_cases:
  "(r \<notin> set names \<or> c \<notin> set ids \<longrightarrow> lookup_loc names ids m r c = Inl KeyError)
   \<and> ((r, c) \<in> set rcs \<and> (r \<notin> set names \<or> c \<notin> set ids) \<longrightarrow>
        lookups names ids m rcs = Inl KeyError)
   \<and> (count_list names r = 1 \<and> count_list ids c = 1 \<longrightarrow>
        (\<exists>i j. i < length names \<and> names ! i = r \<and> j < length ids \<and> ids ! j = c
               \<and> lookup_loc names ids m r c = Inr (Scalar (m ! i ! j))))
   \<and> (r \<in> set names \<and> c \<in> set ids \<and> (1 < count_list names r \<or> 1 < count_list ids c) \<longrightarrow>
        (\<exists>f. lookup_loc names ids m r c = Inr (Frame f)))"
proof (intro conjI impI)
  assume "r \<notin> set names \<or> c \<notin> set ids"
  then show "lookup_loc names ids m r c = Inl KeyError" by (rule lookup_loc_KeyError)
next
  assume "(r, c) \<in> set rcs \<and> (r \<notin> set names \<or> c \<notin> set ids)"
  then show "lookups names ids m rcs = Inl KeyError" using lookups_KeyError by blast
next
  assume h: "count_list names r = 1 \<and> count_list ids c = 1"
  from h have "count_list names r = 1" and "count_list ids c = 1" by simp_all
  from positions_single[OF this(1)] positions_single[OF this(2)]
  obtain i j where i: "positions names r = [i]" "i < length names" "names ! i = r"
    and j: "positions ids c = [j]" "j < length ids" "ids ! j = c"
    by blast
  have "lookup_loc names ids m r c = Inr (Scalar (m ! i ! j))"
    by (simp add: lookup_loc_def i(1) j(1))
  with i j show "\<exists>i j. i < length names \<and> names ! i = r \<and> j < length ids \<and> ids ! j = c
               \<and> lookup_loc names ids m r c = Inr (Scalar (m ! i ! j))" by blast
next
  assume h: "r \<in> set names \<and> c \<in> set ids \<and> (1 < count_list names r \<or> 1 < count_list ids c)"
  then have ne: "positions names r \<noteq> []" "positions ids c \<noteq> []"
    by (simp_all add: positions_Nil_iff)
  from h have "1 < length (positions names r) \<or> 1 < length (positions ids c)"
    by (simp add: length_positions)
  then consider (rows) i i' ix where "positions names r = i # i' # ix"
    | (cols) i j j' js where "positions names r = [i]" "positions ids c = j # j' # js"
  proof (cases "positions names r")
    case Nil
    with ne show ?thesis by simp
  next
    case (Cons i ix)
    note ps = Cons
    show ?thesis
    proof (cases ix)
      case (Cons i' ix')
      with ps show ?thesis using that(1) by blast
    next
      case Nil
      with ps have one: "positions names r = [i]" by simp
      with \<open>1 < length (positions names r) \<or> 1 < length (positions ids c)\<close>
      have "1 < length (positions ids c)" by simp
      then obtain j j' js where "positions ids c = j # j' # js"
        by (cases "positions ids c") (auto simp: Suc_length_conv neq_Nil_conv)
      with one show ?thesis using that(2) by blast
    qed
  qed
  then show "\<exists>f. lookup_loc names ids m r c = Inr (Frame f)"
  proof cases
    case rows
    obtain j js where "positions ids c = j # js" using ne(2) by (cases "positions ids c") auto
    with rows show ?thesis by (simp add: lookup_loc_def)
  next
    case cols
    then show ?thesis by (simp add: lookup_loc_def)
  qed
qed


theorem lookup_loc_cases_witness:
  "''e2'' \<notin> set [''e0'', ''e1'']
   \<and> lookup_loc [''e0'', ''e1''] [''g0''] [[Finite (1 / 2)], [Finite (1 / 4)]] ''e2'' ''g0'' = Inl KeyError
   \<and> lookups [''e0'', ''e1''] [''g0''] [[Finite (1 / 2)], [Finite (1 / 4)]] [(''e0'', ''g0''), (''e2'', ''g0'')]
       = Inl KeyError
   \<and> count_list [''e0'', ''e1''] ''e1'' = 1
   \<and> count_list [''g0''] ''g0'' = 1
   \<and> lookup_loc [''e0'', ''e1''] [''g0''] [[Finite (1 / 2)], [Finite (1 / 4)]] ''e1'' ''g0'' = Inr (Scalar (Finite (1 / 4)))
   \<and> 1 < count_list [''e1'', ''e1''] ''e1''
   \<and> lookup_loc [''e1'', ''e1''] [''g0''] [[Finite (1 / 2)], [Finite (1 / 4)]] ''e1'' ''g0''
       = Inr (Frame [[Finite (1 / 2)], [Finite (1 / 4)]])"
proof -
  have a: "''e2'' \<notin> set [''e0'', ''e1'']" by simp
  have k: "lookup_loc [''e0'', ''e1''] [''g0''] [[Finite (1 / 2)], [Finite (1 / 4)]] ''e2'' ''g0'' = Inl KeyError"
    using a lookup_loc_cases[of "''e2''" "[''e0'', ''e1'']" "''g0''" "[''g0'']"
        "[[Finite (1 / 2)], [Finite (1 / 4)]]" "[]"] by blast
  have ks: "lookups [''e0'', ''e1''] [''g0''] [[Finite (1 / 2)], [Finite (1 / 4)]] [(''e0'', ''g0''), (''e2'', ''g0'')]
       = Inl KeyError"
    using a lookup_loc_cases[of "''e2''" "[''e0'', ''e1'']" "''g0''" "[''g0'']"
        "[[Finite (1 / 2)], [Finite (1 / 4)]]" "[(''e0'', ''g0''), (''e2'', ''g0'')]"] by simp
  show ?thesis
    using a k ks by (simp add: lookup_loc_def positions_def)
qed

theorem present_label_counterexample:
  "map element_name (elements_of
     [\<lparr>ElementChr = ''chr1'', ElementStart = 590, ElementEnd = 610, ElementName = ''e1'',
          GeneEnsemblID = ''g1'', GeneSymbol = ''G1'', GeneTSS = 500, others = []\<rparr>,
      \<lparr>ElementChr = ''chr1'', ElementStart = 600, ElementEnd = 620, ElementName = ''e1'',
          GeneEnsemblID = ''g1'', GeneSymbol = ''G1'', GeneTSS = 500, others = []\<rparr>])
     = [''e1'', ''e1'']
   \<and> map gene_id (genes_of
     [\<lparr>ElementChr = ''chr1'', ElementStart = 590, ElementEnd = 610, ElementName = ''e1'',
          GeneEnsemblID = ''g1'', GeneSymbol = ''G1'', GeneTSS = 500, others = []\<rparr>,
      \<lparr>ElementChr = ''chr1'', ElementStart = 600, ElementEnd = 620, ElementName = ''e1'',
          GeneEnsemblID = ''g1'', GeneSymbol = ''G1'', GeneTSS = 500, others = []\<rparr>])
     = [''g1'']
   \<and> ''e1'' \<in> set [''e1'', ''e1'']
   \<and> ''g1'' \<in> set [''g1'']
   \<and> lookup_loc [''e1'', ''e1''] [''g1''] [[Finite 0], [Finite 0]] ''e1'' ''g1'' = Inr (Frame [[Finite 0], [Finite 0]])
   \<and> pinloop_main []
     [\<lparr>ElementChr = ''chr1'', ElementStart = 590, ElementEnd = 610, ElementName = ''e1'',
          GeneEnsemblID = ''g1'', GeneSymbol = ''G1'', GeneTSS = 500, others = []\<rparr>,
      \<lparr>ElementChr = ''chr1'', ElementStart = 600, ElementEnd = 620, ElementName = ''e1'',
          GeneEnsemblID = ''g1'', GeneSymbol = ''G1'', GeneTSS = 500, others = []\<rparr>]
     = Inl ValueError"
  by (simp add: pinloop_main_def set_column_def process_chr_def genes_of_def elements_of_def
        chrom_pinloop_def alloc_pinloop_def axis_bins_def np_searchsorted_def Let_def frame_index_def
        searchsorted_def bisect_left.simps p_inloop_dense_def accumulate_def loop_step_def
        id_dict_def add_slice2_def add_slice_def in_slice_def np_divide_def true_divide_def np_T_def
        lookup_loc_def positions_def assign_pinloop_def loop.extend_def aloop.fields_def)

subsection \<open>The assignment of the column\<close>

lemma set_column_twice: "set_column n v (set_column n w r) = set_column n v r"
proof (cases "n \<in> fst ` set (others r)")
  case True
  have keys: "fst ` set (map (\<lambda>(k, x). if k = n then (k, w) else (k, x)) (others r))
            = fst ` set (others r)"
    by (force simp: image_iff split: if_splits)
  have "map (\<lambda>(k, x). if k = n then (k, v) else (k, x))
          (map (\<lambda>(k, x). if k = n then (k, w) else (k, x)) (others r))
      = map (\<lambda>(k, x). if k = n then (k, v) else (k, x)) (others r)"
    by (auto simp: comp_def split: if_splits)
  then show ?thesis using True keys by (simp add: set_column_def)
next
  case False
  have "map (\<lambda>(k, x). if k = n then (k, v) else (k, x)) (others r) = others r"
    using False by (intro map_idI) (auto simp: image_iff)
  then show ?thesis using False by (simp add: set_column_def)
qed

lemma fold_assign_rows:
  "length (fold (\<lambda>(i, v) t. t[i := set_column n (Num v) (t ! i)]) ps t) = length t
   \<and> (\<forall>i<length t.
        fold (\<lambda>(i, v) t. t[i := set_column n (Num v) (t ! i)]) ps t ! i = t ! i
        \<or> (\<exists>v\<in>snd ` set ps.
             fold (\<lambda>(i, v) t. t[i := set_column n (Num v) (t ! i)]) ps t ! i
               = set_column n (Num v) (t ! i)))"
proof (induction ps arbitrary: t)
  case Nil
  then show ?case by simp
next
  case (Cons p ps)
  obtain i0 v0 where p: "p = (i0, v0)" by (cases p)
  let ?t1 = "t[i0 := set_column n (Num v0) (t ! i0)]"
  let ?f = "fold (\<lambda>(i, v) t. t[i := set_column n (Num v) (t ! i)]) ps ?t1"
  have f: "fold (\<lambda>(i, v) t. t[i := set_column n (Num v) (t ! i)]) (p # ps) t = ?f"
    by (simp add: p)
  from Cons.IH[of ?t1] have len: "length ?f = length t"
    and ih: "\<forall>i<length t. ?f ! i = ?t1 ! i
        \<or> (\<exists>v\<in>snd ` set ps. ?f ! i = set_column n (Num v) (?t1 ! i))"
    by simp_all
  have "\<forall>i<length t. ?f ! i = t ! i
        \<or> (\<exists>v\<in>snd ` set (p # ps). ?f ! i = set_column n (Num v) (t ! i))"
  proof (intro allI impI)
    fix i assume i: "i < length t"
    show "?f ! i = t ! i \<or> (\<exists>v\<in>snd ` set (p # ps). ?f ! i = set_column n (Num v) (t ! i))"
    proof (cases "i = i0")
      case True
      then have t1: "?t1 ! i = set_column n (Num v0) (t ! i)" using i by simp
      from ih i have "?f ! i = ?t1 ! i
        \<or> (\<exists>v\<in>snd ` set ps. ?f ! i = set_column n (Num v) (?t1 ! i))" by blast
      then show ?thesis
      proof
        assume "?f ! i = ?t1 ! i"
        then have "?f ! i = set_column n (Num v0) (t ! i)" by (simp only: t1)
        then show ?thesis by (auto simp: p)
      next
        assume "\<exists>v\<in>snd ` set ps. ?f ! i = set_column n (Num v) (?t1 ! i)"
        then obtain v where v: "v \<in> snd ` set ps" "?f ! i = set_column n (Num v) (?t1 ! i)"
          by blast
        then have "?f ! i = set_column n (Num v) (t ! i)"
          by (simp only: t1 set_column_twice)
        with v(1) show ?thesis by auto
      qed
    next
      case False
      then have e: "?t1 ! i = t ! i" by simp
      from ih i have "?f ! i = ?t1 ! i
        \<or> (\<exists>v\<in>snd ` set ps. ?f ! i = set_column n (Num v) (?t1 ! i))" by blast
      then have "?f ! i = t ! i
        \<or> (\<exists>v\<in>snd ` set ps. ?f ! i = set_column n (Num v) (t ! i))" by (simp only: e)
      then show ?thesis by auto
    qed
  qed
  with len show ?case by (simp only: f)
qed

lemma assign_pinloop_rows:
  "length (assign_pinloop idx vals t) = length t"
  "i < length t \<Longrightarrow>
     assign_pinloop idx vals t ! i = t ! i
     \<or> (\<exists>v\<in>set vals. assign_pinloop idx vals t ! i = set_column ''Pinloop'' (Num v) (t ! i))"
proof -
  note r = fold_assign_rows[of "''Pinloop''" "zip idx vals" t]
  show "length (assign_pinloop idx vals t) = length t"
    using r by (simp add: assign_pinloop_def)
  assume "i < length t"
  with r have "assign_pinloop idx vals t ! i = t ! i
     \<or> (\<exists>v\<in>snd ` set (zip idx vals).
           assign_pinloop idx vals t ! i = set_column ''Pinloop'' (Num v) (t ! i))"
    by (simp add: assign_pinloop_def)
  moreover have "snd ` set (zip idx vals) \<subseteq> set vals"
    by (auto dest: set_zip_rightD)
  ultimately show "assign_pinloop idx vals t ! i = t ! i
     \<or> (\<exists>v\<in>set vals. assign_pinloop idx vals t ! i = set_column ''Pinloop'' (Num v) (t ! i))"
    by blast
qed

lemma lookup_loc_Scalar:
  assumes "lookup_loc names ids m r c = Inr (Scalar v)"
  shows "\<exists>i<length names. \<exists>j<length ids. v = m ! i ! j"
proof -
  from assms obtain i j where ij: "positions names r = [i]" "positions ids c = [j]" "v = m ! i ! j"
    by (auto simp: lookup_loc_def split: list.splits)
  have "i \<in> set (positions names r)" "j \<in> set (positions ids c)" using ij by simp_all
  then have "i < length names" "j < length ids" by (simp_all add: set_positions)
  with ij(3) show ?thesis by blast
qed

lemma lookups_values:
  "lookups names ids m rcs = Inr ls \<Longrightarrow> scalars ls = Inr vals \<Longrightarrow>
   \<forall>v\<in>set vals. \<exists>i<length names. \<exists>j<length ids. v = m ! i ! j"
proof (induction names ids m rcs arbitrary: ls vals rule: lookups.induct)
  case (1 names ids m)
  then show ?case by simp
next
  case (2 names ids m r c rcs)
  from "2.prems"(1) obtain l ls' where l: "lookup_loc names ids m r c = Inr l"
    and ls': "lookups names ids m rcs = Inr ls'" and ls: "ls = l # ls'"
    by (auto split: sum.splits)
  from "2.prems"(2) ls obtain v vals' where v: "l = Scalar v"
    and vals': "scalars ls' = Inr vals'" and vals: "vals = v # vals'"
    by (cases l) (auto split: sum.splits)
  from "2.IH"[OF l ls' vals'] lookup_loc_Scalar[OF l[unfolded v]]
  show ?case by (simp add: vals)
qed

subsection \<open>The rows of the output table\<close>

lemma length_frame_index [simp]: "length (frame_index df) = length df"
  by (simp add: frame_index_def)

lemma chrom_pinloop_unit:
  assumes m: "chrom_pinloop genes elements ls = Inr m"
    and c: "\<forall>l\<in>set ls. 0 \<le> count l"
    and i: "i < length elements" and j: "j < length genes"
  shows "\<exists>v. m ! i ! j = Finite v \<and> 0 \<le> v \<and> v \<le> 1"
proof -
  obtain als where als: "alloc_pinloop genes elements (filter (\<lambda>l. loop_length l < 1000000) ls) = Inr als"
    using alloc_pinloop_returns by blast
  have cs: "\<forall>a\<in>set als. 0 \<le> count a"
    using als c by (intro alloc_pinloop_counts[OF als]) simp
  let ?M = "p_inloop_dense (frame_index genes) (frame_index elements) als"
  have "m = np_T (length elements) ?M" using m als by (simp add: chrom_pinloop_def)
  then have "m ! i ! j = ?M ! j ! i" using i j by (simp add: np_T_def)
  moreover have "\<exists>v. ?M ! j ! i = Finite v \<and> 0 \<le> v \<and> v \<le> 1"
    using p_inloop_dense_unit[OF cs, of j "frame_index genes" i "frame_index elements"] i j
    by simp
  ultimately show ?thesis by simp
qed

lemma process_chr_rows:
  assumes p: "process_chr chiapet chrm t = Inr t'"
    and c: "\<forall>l\<in>set chiapet. 0 \<le> count l"
  shows "length t' = length t
       \<and> (\<forall>i<length t. t' ! i = t ! i
            \<or> (\<exists>v. 0 \<le> v \<and> v \<le> 1 \<and> t' ! i = set_column ''Pinloop'' (Num (Finite v)) (t ! i)))"
proof -
  define idx where "idx = filter (\<lambda>i. ElementChr (t ! i) = chrm) [0..<length t]"
  define pairs where "pairs = map (\<lambda>i. t ! i) idx"
  define genes where "genes = genes_of pairs"
  define elements where "elements = elements_of pairs"
  define ls where "ls = filter (\<lambda>l. chr l = chrm) chiapet"
  from p obtain m lks vals where m: "chrom_pinloop genes elements ls = Inr m"
    and lks: "lookups (map element_name elements) (map gene_id genes) m
                (map (\<lambda>r. (ElementName r, GeneEnsemblID r)) pairs) = Inr lks"
    and vals: "scalars lks = Inr vals"
    and t': "t' = assign_pinloop idx vals t"
    unfolding process_chr_def Let_def idx_def[symmetric] pairs_def[symmetric]
      genes_def[symmetric] elements_def[symmetric] ls_def[symmetric]
    by (auto split: sum.splits)
  have cl: "\<forall>l\<in>set ls. 0 \<le> count l" using c by (simp add: ls_def)
  have bound: "\<forall>x\<in>set vals. \<exists>v. x = Finite v \<and> 0 \<le> v \<and> v \<le> 1"
  proof
    fix x assume "x \<in> set vals"
    with lookups_values[OF lks vals] obtain i j where ij: "i < length elements" "j < length genes"
      "x = m ! i ! j" by auto
    from chrom_pinloop_unit[OF m cl ij(1,2)] show "\<exists>v. x = Finite v \<and> 0 \<le> v \<and> v \<le> 1"
      by (simp only: ij(3))
  qed
  have "\<forall>i<length t. assign_pinloop idx vals t ! i = t ! i
       \<or> (\<exists>v. 0 \<le> v \<and> v \<le> 1
             \<and> assign_pinloop idx vals t ! i = set_column ''Pinloop'' (Num (Finite v)) (t ! i))"
  proof (intro allI impI)
    fix i assume "i < length t"
    from assign_pinloop_rows(2)[OF this, of idx vals]
    show "assign_pinloop idx vals t ! i = t ! i
       \<or> (\<exists>v. 0 \<le> v \<and> v \<le> 1
             \<and> assign_pinloop idx vals t ! i = set_column ''Pinloop'' (Num (Finite v)) (t ! i))"
    proof
      assume "assign_pinloop idx vals t ! i = t ! i"
      then show ?thesis by (rule disjI1)
    next
      assume "\<exists>x\<in>set vals. assign_pinloop idx vals t ! i = set_column ''Pinloop'' (Num x) (t ! i)"
      then obtain x where x: "x \<in> set vals"
        "assign_pinloop idx vals t ! i = set_column ''Pinloop'' (Num x) (t ! i)" by (rule bexE)
      from bound x(1) have "\<exists>v. x = Finite v \<and> 0 \<le> v \<and> v \<le> 1" by (rule bspec)
      then obtain v where v: "x = Finite v" "0 \<le> v" "v \<le> 1" by (elim exE conjE)
      have "assign_pinloop idx vals t ! i = set_column ''Pinloop'' (Num (Finite v)) (t ! i)"
        using x(2) by (simp only: v(1))
      with v(2,3) show ?thesis by (intro disjI2 exI[of _ v] conjI)
    qed
  qed
  then show ?thesis
    unfolding t' by (simp add: assign_pinloop_rows(1))
qed

lemma run_chromosomes_rows:
  "run_chromosomes chiapet chrms t = Inr out \<Longrightarrow> \<forall>l\<in>set chiapet. 0 \<le> count l \<Longrightarrow>
   length out = length t
   \<and> (\<forall>i<length t. out ! i = t ! i
        \<or> (\<exists>v. 0 \<le> v \<and> v \<le> 1 \<and> out ! i = set_column ''Pinloop'' (Num (Finite v)) (t ! i)))"
proof (induction chrms arbitrary: t)
  case Nil
  then show ?case by simp
next
  case (Cons chrm chrms)
  from Cons.prems(1) obtain t1 where t1: "process_chr chiapet chrm t = Inr t1"
    and out: "run_chromosomes chiapet chrms t1 = Inr out"
    by (auto split: sum.splits)
  note a = process_chr_rows[OF t1 Cons.prems(2)]
  note b = Cons.IH[OF out Cons.prems(2)]
  have len: "length out = length t" using a b by simp
  have "\<forall>i<length t. out ! i = t ! i
        \<or> (\<exists>v. 0 \<le> v \<and> v \<le> 1 \<and> out ! i = set_column ''Pinloop'' (Num (Finite v)) (t ! i))"
  proof (intro allI impI)
    fix i assume i: "i < length t"
    then have i1: "i < length t1" using a by simp
    from a i have s1: "t1 ! i = t ! i
        \<or> (\<exists>v. 0 \<le> v \<and> v \<le> 1 \<and> t1 ! i = set_column ''Pinloop'' (Num (Finite v)) (t ! i))" by blast
    from b i1 have s2: "out ! i = t1 ! i
        \<or> (\<exists>v. 0 \<le> v \<and> v \<le> 1 \<and> out ! i = set_column ''Pinloop'' (Num (Finite v)) (t1 ! i))" by blast
    from s2 show "out ! i = t ! i
        \<or> (\<exists>v. 0 \<le> v \<and> v \<le> 1 \<and> out ! i = set_column ''Pinloop'' (Num (Finite v)) (t ! i))"
    proof
      assume "out ! i = t1 ! i"
      with s1 show ?thesis by auto
    next
      assume "\<exists>v. 0 \<le> v \<and> v \<le> 1 \<and> out ! i = set_column ''Pinloop'' (Num (Finite v)) (t1 ! i)"
      then obtain v where v: "0 \<le> v" "v \<le> 1" "out ! i = set_column ''Pinloop'' (Num (Finite v)) (t1 ! i)"
        by blast
      from s1 have "set_column ''Pinloop'' (Num (Finite v)) (t1 ! i) = set_column ''Pinloop'' (Num (Finite v)) (t ! i)"
        by (auto simp: set_column_twice)
      with v show ?thesis by auto
    qed
  qed
  with len show ?case by simp
qed

lemma pinloop_main_rows:
  assumes "pinloop_main chiapet table = Inr out" and "\<forall>l\<in>set chiapet. 0 \<le> count l"
  shows "length out = length table
       \<and> (\<forall>i<length table. \<exists>v. 0 \<le> v \<and> v \<le> 1
             \<and> out ! i = set_column ''Pinloop'' (Num (Finite v)) (table ! i))"
proof -
  let ?t = "map (set_column ''Pinloop'' (Num (Finite 0))) table"
  from assms(1) obtain chrms where "run_chromosomes chiapet chrms ?t = Inr out"
    by (simp add: pinloop_main_def Let_def)
  from run_chromosomes_rows[OF this assms(2)]
  have len: "length out = length table"
    and rows: "\<forall>i<length table. out ! i = ?t ! i
        \<or> (\<exists>v. 0 \<le> v \<and> v \<le> 1 \<and> out ! i = set_column ''Pinloop'' (Num (Finite v)) (?t ! i))"
    by simp_all
  have "\<forall>i<length table. \<exists>v. 0 \<le> v \<and> v \<le> 1
             \<and> out ! i = set_column ''Pinloop'' (Num (Finite v)) (table ! i)"
  proof (intro allI impI)
    fix i assume i: "i < length table"
    then have ti: "?t ! i = set_column ''Pinloop'' (Num (Finite 0)) (table ! i)" by simp
    from rows i have "out ! i = ?t ! i
        \<or> (\<exists>v. 0 \<le> v \<and> v \<le> 1 \<and> out ! i = set_column ''Pinloop'' (Num (Finite v)) (?t ! i))" by blast
    then show "\<exists>v. 0 \<le> v \<and> v \<le> 1 \<and> out ! i = set_column ''Pinloop'' (Num (Finite v)) (table ! i)"
    proof
      assume "out ! i = ?t ! i"
      then have "out ! i = set_column ''Pinloop'' (Num (Finite 0)) (table ! i)" by (simp only: ti)
      then show ?thesis by (intro exI[of _ 0]) simp
    next
      assume "\<exists>v. 0 \<le> v \<and> v \<le> 1 \<and> out ! i = set_column ''Pinloop'' (Num (Finite v)) (?t ! i)"
      then obtain v where "0 \<le> v" "v \<le> 1" "out ! i = set_column ''Pinloop'' (Num (Finite v)) (?t ! i)"
        by blast
      then have "0 \<le> v \<and> v \<le> 1 \<and> out ! i = set_column ''Pinloop'' (Num (Finite v)) (table ! i)"
        by (simp only: ti set_column_twice)
      then show ?thesis by blast
    qed
  qed
  with len show ?thesis by simp
qed

subsection \<open>Completion of the run\<close>

lemma set_drop_duplicates [simp]: "set (drop_duplicates xs) = set xs"
  by (induction xs rule: drop_duplicates.induct) auto

lemma distinct_drop_duplicates [simp]: "distinct (drop_duplicates xs)"
  by (induction xs rule: drop_duplicates.induct) auto

lemma count_list_distinct: "distinct xs \<Longrightarrow> x \<in> set xs \<Longrightarrow> count_list xs x = 1"
  by (induction xs) auto

lemma lookup_loc_distinct:
  assumes "distinct names" "distinct ids" "r \<in> set names" "c \<in> set ids"
  shows "\<exists>v. lookup_loc names ids m r c = Inr (Scalar v)"
proof -
  from positions_single[OF count_list_distinct[OF assms(1,3)]]
       positions_single[OF count_list_distinct[OF assms(2,4)]]
  obtain i j where "positions names r = [i]" "positions ids c = [j]" by blast
  then show ?thesis by (simp add: lookup_loc_def)
qed

lemma lookups_distinct:
  assumes "distinct names" "distinct ids"
  shows "\<forall>(r, c)\<in>set rcs. r \<in> set names \<and> c \<in> set ids \<Longrightarrow>
         \<exists>ls vals. lookups names ids m rcs = Inr ls \<and> scalars ls = Inr vals"
proof (induction rcs)
  case Nil
  then show ?case by simp
next
  case (Cons rc rcs)
  obtain r c where rc: "rc = (r, c)" by (cases rc)
  from Cons.prems rc have "r \<in> set names" "c \<in> set ids" by auto
  then have "\<exists>v. lookup_loc names ids m r c = Inr (Scalar v)"
    by (intro lookup_loc_distinct assms)
  then obtain v where v: "lookup_loc names ids m r c = Inr (Scalar v)" by (rule exE)
  have "\<forall>(r, c)\<in>set rcs. r \<in> set names \<and> c \<in> set ids"
    using Cons.prems by simp
  then have "\<exists>ls vals. lookups names ids m rcs = Inr ls \<and> scalars ls = Inr vals"
    by (rule Cons.IH)
  then obtain ls vals
    where l: "lookups names ids m rcs = Inr ls" and s: "scalars ls = Inr vals" by (elim exE conjE)
  have "lookups names ids m (rc # rcs) = Inr (Scalar v # ls)"
    by (simp add: rc v l)
  moreover have "scalars (Scalar v # ls) = Inr (v # vals)"
    by (simp add: s)
  ultimately show ?case by (intro exI conjI)
qed

lemma process_chr_succeeds:
  assumes e: "\<forall>r\<in>set t. \<forall>r'\<in>set t. ElementChr r = ElementChr r' \<and> ElementName r = ElementName r'
                \<longrightarrow> ElementStart r = ElementStart r' \<and> ElementEnd r = ElementEnd r'"
    and g: "\<forall>r\<in>set t. \<forall>r'\<in>set t. ElementChr r = ElementChr r' \<and> GeneEnsemblID r = GeneEnsemblID r'
                \<longrightarrow> GeneSymbol r = GeneSymbol r' \<and> GeneTSS r = GeneTSS r'"
  shows "\<exists>t'. process_chr chiapet chrm t = Inr t'"
proof -
  define idx where "idx = filter (\<lambda>i. ElementChr (t ! i) = chrm) [0..<length t]"
  define pairs where "pairs = map (\<lambda>i. t ! i) idx"
  define genes where "genes = genes_of pairs"
  define elements where "elements = elements_of pairs"
  define ls where "ls = filter (\<lambda>l. chr l = chrm) chiapet"
  have sub: "set pairs \<subseteq> {r \<in> set t. ElementChr r = chrm}"
    by (auto simp: pairs_def idx_def)
  have de: "distinct (map element_name elements)"
    unfolding elements_def elements_of_def
  proof (simp add: distinct_map, rule inj_onI)
    fix x y
    assume "x \<in> (\<lambda>r. (ElementName r, ElementStart r, ElementEnd r)) ` set pairs"
      and "y \<in> (\<lambda>r. (ElementName r, ElementStart r, ElementEnd r)) ` set pairs"
      and n: "element_name x = element_name y"
    then obtain r r' where r: "r \<in> set pairs" "x = (ElementName r, ElementStart r, ElementEnd r)"
      and r': "r' \<in> set pairs" "y = (ElementName r', ElementStart r', ElementEnd r')"
      by auto
    from r(1) r'(1) sub have "r \<in> set t" "r' \<in> set t" "ElementChr r = ElementChr r'" by auto
    moreover from n r(2) r'(2) have "ElementName r = ElementName r'" by simp
    ultimately have "ElementStart r = ElementStart r' \<and> ElementEnd r = ElementEnd r'"
      using e by blast
    with \<open>ElementName r = ElementName r'\<close> r(2) r'(2) show "x = y" by simp
  qed
  have dg: "distinct (map gene_id genes)"
    unfolding genes_def genes_of_def
  proof (simp add: distinct_map, rule inj_onI)
    fix x y
    assume "x \<in> (\<lambda>r. (GeneEnsemblID r, GeneSymbol r, GeneTSS r)) ` set pairs"
      and "y \<in> (\<lambda>r. (GeneEnsemblID r, GeneSymbol r, GeneTSS r)) ` set pairs"
      and n: "gene_id x = gene_id y"
    then obtain r r' where r: "r \<in> set pairs" "x = (GeneEnsemblID r, GeneSymbol r, GeneTSS r)"
      and r': "r' \<in> set pairs" "y = (GeneEnsemblID r', GeneSymbol r', GeneTSS r')"
      by auto
    from r(1) r'(1) sub have "r \<in> set t" "r' \<in> set t" "ElementChr r = ElementChr r'" by auto
    moreover from n r(2) r'(2) have "GeneEnsemblID r = GeneEnsemblID r'" by simp
    ultimately have "GeneSymbol r = GeneSymbol r' \<and> GeneTSS r = GeneTSS r'"
      using g by blast
    with \<open>GeneEnsemblID r = GeneEnsemblID r'\<close> r(2) r'(2) show "x = y" by simp
  qed
  have present: "\<forall>(r, c)\<in>set (map (\<lambda>r. (ElementName r, GeneEnsemblID r)) pairs).
        r \<in> set (map element_name elements) \<and> c \<in> set (map gene_id genes)"
    by (force simp: elements_def elements_of_def genes_def genes_of_def image_iff)
  obtain m where m: "chrom_pinloop genes elements ls = Inr m"
    by (simp add: chrom_pinloop_def alloc_pinloop_eq)
  from lookups_distinct[OF de dg present, of m] obtain lks vals
    where "lookups (map element_name elements) (map gene_id genes) m
                (map (\<lambda>r. (ElementName r, GeneEnsemblID r)) pairs) = Inr lks"
      "scalars lks = Inr vals" by blast
  with m show ?thesis
    unfolding process_chr_def Let_def idx_def[symmetric] pairs_def[symmetric]
      genes_def[symmetric] elements_def[symmetric] ls_def[symmetric]
    by simp
qed

lemma set_column_fields [simp]:
  "ElementChr (set_column n v r) = ElementChr r"
  "ElementStart (set_column n v r) = ElementStart r"
  "ElementEnd (set_column n v r) = ElementEnd r"
  "ElementName (set_column n v r) = ElementName r"
  "GeneEnsemblID (set_column n v r) = GeneEnsemblID r"
  "GeneSymbol (set_column n v r) = GeneSymbol r"
  "GeneTSS (set_column n v r) = GeneTSS r"
  by (simp_all add: set_column_def)

lemma fold_assign_fields:
  "map (\<lambda>r. r\<lparr>others := []\<rparr>) (fold (\<lambda>(i, v) t. t[i := set_column n (Num v) (t ! i)]) ps t)
   = map (\<lambda>r. r\<lparr>others := []\<rparr>) t"
proof (induction ps arbitrary: t)
  case Nil
  then show ?case by simp
next
  case (Cons p ps)
  obtain i v where p: "p = (i, v)" by (cases p)
  have "map (\<lambda>r. r\<lparr>others := []\<rparr>) (t[i := set_column n (Num v) (t ! i)])
      = (map (\<lambda>r. r\<lparr>others := []\<rparr>) t)[i := (t ! i)\<lparr>others := []\<rparr>]"
    by (simp add: map_update set_column_def)
  also have "\<dots> = map (\<lambda>r. r\<lparr>others := []\<rparr>) (t[i := t ! i])"
    by (simp only: map_update)
  finally have "map (\<lambda>r. r\<lparr>others := []\<rparr>) (t[i := set_column n (Num v) (t ! i)])
      = map (\<lambda>r. r\<lparr>others := []\<rparr>) t"
    by simp
  with Cons.IH[of "t[i := set_column n (Num v) (t ! i)]"] show ?case by (simp add: p)
qed


lemma same_fields_row:
  assumes "map (\<lambda>r. r\<lparr>others := []\<rparr>) t' = map (\<lambda>r. r\<lparr>others := []\<rparr>) t" and "r \<in> set t'"
  shows "\<exists>r0\<in>set t. ElementChr r = ElementChr r0 \<and> ElementName r = ElementName r0
           \<and> ElementStart r = ElementStart r0 \<and> ElementEnd r = ElementEnd r0
           \<and> GeneEnsemblID r = GeneEnsemblID r0 \<and> GeneSymbol r = GeneSymbol r0
           \<and> GeneTSS r = GeneTSS r0"
proof -
  have "r\<lparr>others := []\<rparr> \<in> set (map (\<lambda>r. r\<lparr>others := []\<rparr>) t')" using assms(2) by simp
  then have "r\<lparr>others := []\<rparr> \<in> set (map (\<lambda>r. r\<lparr>others := []\<rparr>) t)" by (simp only: assms(1))
  then obtain r0 where r0: "r0 \<in> set t" "r\<lparr>others := []\<rparr> = r0\<lparr>others := []\<rparr>" by auto
  have "ElementChr (r\<lparr>others := []\<rparr>) = ElementChr (r0\<lparr>others := []\<rparr>)"
    "ElementName (r\<lparr>others := []\<rparr>) = ElementName (r0\<lparr>others := []\<rparr>)"
    "ElementStart (r\<lparr>others := []\<rparr>) = ElementStart (r0\<lparr>others := []\<rparr>)"
    "ElementEnd (r\<lparr>others := []\<rparr>) = ElementEnd (r0\<lparr>others := []\<rparr>)"
    "GeneEnsemblID (r\<lparr>others := []\<rparr>) = GeneEnsemblID (r0\<lparr>others := []\<rparr>)"
    "GeneSymbol (r\<lparr>others := []\<rparr>) = GeneSymbol (r0\<lparr>others := []\<rparr>)"
    "GeneTSS (r\<lparr>others := []\<rparr>) = GeneTSS (r0\<lparr>others := []\<rparr>)"
    by (simp_all only: r0(2))
  then show ?thesis using r0(1) by auto
qed

lemma process_chr_fields:
  assumes "process_chr chiapet chrm t = Inr t'"
  shows "map (\<lambda>r. r\<lparr>others := []\<rparr>) t' = map (\<lambda>r. r\<lparr>others := []\<rparr>) t"
proof -
  from assms obtain idx vals where "t' = assign_pinloop idx vals t"
    by (auto simp: process_chr_def Let_def split: sum.splits)
  then show ?thesis by (simp add: assign_pinloop_def fold_assign_fields)
qed

lemma consistent_elements_transfer:
  assumes f: "\<And>r. r \<in> set t' \<Longrightarrow> \<exists>r0\<in>set t. ElementChr r = ElementChr r0 \<and> ElementName r = ElementName r0
           \<and> ElementStart r = ElementStart r0 \<and> ElementEnd r = ElementEnd r0
           \<and> GeneEnsemblID r = GeneEnsemblID r0 \<and> GeneSymbol r = GeneSymbol r0
           \<and> GeneTSS r = GeneTSS r0"
    and e: "\<forall>r\<in>set t. \<forall>r'\<in>set t. ElementChr r = ElementChr r' \<and> ElementName r = ElementName r'
      \<longrightarrow> ElementStart r = ElementStart r' \<and> ElementEnd r = ElementEnd r'"
  shows "\<forall>r\<in>set t'. \<forall>r'\<in>set t'. ElementChr r = ElementChr r' \<and> ElementName r = ElementName r'
      \<longrightarrow> ElementStart r = ElementStart r' \<and> ElementEnd r = ElementEnd r'"
proof (intro ballI impI)
  fix r r' assume r: "r \<in> set t'" and r': "r' \<in> set t'"
    and h: "ElementChr r = ElementChr r' \<and> ElementName r = ElementName r'"
  from f[OF r] obtain r0 where r0: "r0 \<in> set t" "ElementChr r = ElementChr r0"
    "ElementName r = ElementName r0" "ElementStart r = ElementStart r0"
    "ElementEnd r = ElementEnd r0" by blast
  from f[OF r'] obtain r1 where r1: "r1 \<in> set t" "ElementChr r' = ElementChr r1"
    "ElementName r' = ElementName r1" "ElementStart r' = ElementStart r1"
    "ElementEnd r' = ElementEnd r1" by blast
  have "ElementChr r0 = ElementChr r1 \<and> ElementName r0 = ElementName r1"
    using h r0(2,3) r1(2,3) by simp
  with e r0(1) r1(1) have "ElementStart r0 = ElementStart r1 \<and> ElementEnd r0 = ElementEnd r1"
    by blast
  then show "ElementStart r = ElementStart r' \<and> ElementEnd r = ElementEnd r'"
    using r0(4,5) r1(4,5) by simp
qed

lemma consistent_genes_transfer:
  assumes f: "\<And>r. r \<in> set t' \<Longrightarrow> \<exists>r0\<in>set t. ElementChr r = ElementChr r0 \<and> ElementName r = ElementName r0
           \<and> ElementStart r = ElementStart r0 \<and> ElementEnd r = ElementEnd r0
           \<and> GeneEnsemblID r = GeneEnsemblID r0 \<and> GeneSymbol r = GeneSymbol r0
           \<and> GeneTSS r = GeneTSS r0"
    and g: "\<forall>r\<in>set t. \<forall>r'\<in>set t. ElementChr r = ElementChr r' \<and> GeneEnsemblID r = GeneEnsemblID r'
      \<longrightarrow> GeneSymbol r = GeneSymbol r' \<and> GeneTSS r = GeneTSS r'"
  shows "\<forall>r\<in>set t'. \<forall>r'\<in>set t'. ElementChr r = ElementChr r' \<and> GeneEnsemblID r = GeneEnsemblID r'
      \<longrightarrow> GeneSymbol r = GeneSymbol r' \<and> GeneTSS r = GeneTSS r'"
proof (intro ballI impI)
  fix r r' assume r: "r \<in> set t'" and r': "r' \<in> set t'"
    and h: "ElementChr r = ElementChr r' \<and> GeneEnsemblID r = GeneEnsemblID r'"
  from f[OF r] obtain r0 where r0: "r0 \<in> set t" "ElementChr r = ElementChr r0"
    "GeneEnsemblID r = GeneEnsemblID r0" "GeneSymbol r = GeneSymbol r0"
    "GeneTSS r = GeneTSS r0" by blast
  from f[OF r'] obtain r1 where r1: "r1 \<in> set t" "ElementChr r' = ElementChr r1"
    "GeneEnsemblID r' = GeneEnsemblID r1" "GeneSymbol r' = GeneSymbol r1"
    "GeneTSS r' = GeneTSS r1" by blast
  have "ElementChr r0 = ElementChr r1 \<and> GeneEnsemblID r0 = GeneEnsemblID r1"
    using h r0(2,3) r1(2,3) by simp
  with g r0(1) r1(1) have "GeneSymbol r0 = GeneSymbol r1 \<and> GeneTSS r0 = GeneTSS r1"
    by blast
  then show "GeneSymbol r = GeneSymbol r' \<and> GeneTSS r = GeneTSS r'"
    using r0(4,5) r1(4,5) by simp
qed

lemma run_chromosomes_succeeds:
  "\<forall>r\<in>set t. \<forall>r'\<in>set t. ElementChr r = ElementChr r' \<and> ElementName r = ElementName r'
      \<longrightarrow> ElementStart r = ElementStart r' \<and> ElementEnd r = ElementEnd r' \<Longrightarrow>
   \<forall>r\<in>set t. \<forall>r'\<in>set t. ElementChr r = ElementChr r' \<and> GeneEnsemblID r = GeneEnsemblID r'
      \<longrightarrow> GeneSymbol r = GeneSymbol r' \<and> GeneTSS r = GeneTSS r' \<Longrightarrow>
   \<exists>out. run_chromosomes chiapet chrms t = Inr out"
proof (induction chrms arbitrary: t)
  case Nil
  then show ?case by simp
next
  case (Cons chrm chrms)
  from process_chr_succeeds[OF Cons.prems, of chiapet chrm]
  obtain t1 where t1: "process_chr chiapet chrm t = Inr t1" by blast
  note f = same_fields_row[OF process_chr_fields[OF t1]]
  note e1 = consistent_elements_transfer[of t1 t, OF f Cons.prems(1)]
  note g1 = consistent_genes_transfer[of t1 t, OF f Cons.prems(2)]
  from Cons.IH[OF e1 g1] t1 show ?case by simp
qed

lemma pinloop_main_succeeds:
  assumes e: "\<forall>r\<in>set table. \<forall>r'\<in>set table. ElementChr r = ElementChr r' \<and> ElementName r = ElementName r'
      \<longrightarrow> ElementStart r = ElementStart r' \<and> ElementEnd r = ElementEnd r'"
    and g: "\<forall>r\<in>set table. \<forall>r'\<in>set table. ElementChr r = ElementChr r' \<and> GeneEnsemblID r = GeneEnsemblID r'
      \<longrightarrow> GeneSymbol r = GeneSymbol r' \<and> GeneTSS r = GeneTSS r'"
  shows "\<exists>out. pinloop_main chiapet table = Inr out"
proof -
  let ?t = "map (set_column ''Pinloop'' (Num (Finite 0))) table"
  have f: "\<exists>r0\<in>set table. ElementChr r = ElementChr r0 \<and> ElementName r = ElementName r0
           \<and> ElementStart r = ElementStart r0 \<and> ElementEnd r = ElementEnd r0
           \<and> GeneEnsemblID r = GeneEnsemblID r0 \<and> GeneSymbol r = GeneSymbol r0
           \<and> GeneTSS r = GeneTSS r0" if "r \<in> set ?t" for r
  proof -
    from that obtain r0 where "r0 \<in> set table" "r = set_column ''Pinloop'' (Num (Finite 0)) r0"
      by auto
    then show ?thesis by (intro bexI[of _ r0]) simp_all
  qed
  note e1 = consistent_elements_transfer[of ?t table, OF f e]
  note g1 = consistent_genes_transfer[of ?t table, OF f g]
  show ?thesis
    unfolding pinloop_main_def Let_def using e1 g1 by (rule run_chromosomes_succeeds)
qed

subsection \<open>The frame of the run\<close>

lemma set_column_append:
  "n \<notin> fst ` set (others r) \<Longrightarrow> set_column n v r = r\<lparr>others := others r @ [(n, v)]\<rparr>"
  by (simp add: set_column_def)

lemma set_column_cells: "(n, x) \<in> set (others (set_column n v r)) \<Longrightarrow> x = v"
  by (cases "n \<in> fst ` set (others r)") (auto simp: set_column_def image_iff split: if_splits)

text \<open>
  Claim C9, as amended. For a loop catalog with non-negative counts, whenever the run
  completes, the output has the rows of the input in their order, and every output row is
  the input row with the column \<open>Pinloop\<close> set to a number that is at least 0: every
  other cell is as in the input. When the input has no column named \<open>Pinloop\<close>, the
  output row is the input row with exactly one column appended, \<open>Pinloop\<close>. (A column
  of that name already in the input is overwritten in place, and nothing is appended.)
  The run completes whenever, within a chromosome, every ElementName has one pair of
  coordinates and every GeneEnsemblID has one symbol and one TSS.
\<close>

theorem output_table_frame:
  assumes "\<forall>l\<in>set chiapet. 0 \<le> count l"
  shows "(pinloop_main chiapet table = Inr out \<longrightarrow>
          length out = length table
          \<and> (\<forall>i<length table. \<exists>v. 0 \<le> v
                \<and> out ! i = set_column ''Pinloop'' (Num (Finite v)) (table ! i))
          \<and> ((\<forall>r\<in>set table. ''Pinloop'' \<notin> fst ` set (others r)) \<longrightarrow>
               (\<forall>i<length table. \<exists>v. 0 \<le> v
                  \<and> out ! i = (table ! i)\<lparr>others := others (table ! i) @ [(''Pinloop'', Num (Finite v))]\<rparr>)))
       \<and> ((\<forall>r\<in>set table. \<forall>r'\<in>set table.
              ElementChr r = ElementChr r' \<and> ElementName r = ElementName r'
              \<longrightarrow> ElementStart r = ElementStart r' \<and> ElementEnd r = ElementEnd r')
            \<and> (\<forall>r\<in>set table. \<forall>r'\<in>set table.
              ElementChr r = ElementChr r' \<and> GeneEnsemblID r = GeneEnsemblID r'
              \<longrightarrow> GeneSymbol r = GeneSymbol r' \<and> GeneTSS r = GeneTSS r')
          \<longrightarrow> (\<exists>res. pinloop_main chiapet table = Inr res))"
proof (intro conjI impI)
  assume run: "pinloop_main chiapet table = Inr out"
  note r = pinloop_main_rows[OF run assms]
  show "length out = length table" using r by simp
  show a: "\<forall>i<length table. \<exists>v. 0 \<le> v \<and> out ! i = set_column ''Pinloop'' (Num (Finite v)) (table ! i)"
    using r by blast
  assume h: "\<forall>r\<in>set table. ''Pinloop'' \<notin> fst ` set (others r)"
  show "\<forall>i<length table. \<exists>v. 0 \<le> v
               \<and> out ! i = (table ! i)\<lparr>others := others (table ! i) @ [(''Pinloop'', Num (Finite v))]\<rparr>"
  proof (intro allI impI)
    fix i assume i: "i < length table"
    then have "''Pinloop'' \<notin> fst ` set (others (table ! i))" using h by simp
    then have "set_column ''Pinloop'' (Num (Finite v)) (table ! i)
        = (table ! i)\<lparr>others := others (table ! i) @ [(''Pinloop'', Num (Finite v))]\<rparr>" for v
      by (rule set_column_append)
    with a i show "\<exists>v. 0 \<le> v
               \<and> out ! i = (table ! i)\<lparr>others := others (table ! i) @ [(''Pinloop'', Num (Finite v))]\<rparr>"
      by metis
  qed
next
  assume "(\<forall>r\<in>set table. \<forall>r'\<in>set table.
              ElementChr r = ElementChr r' \<and> ElementName r = ElementName r'
              \<longrightarrow> ElementStart r = ElementStart r' \<and> ElementEnd r = ElementEnd r')
            \<and> (\<forall>r\<in>set table. \<forall>r'\<in>set table.
              ElementChr r = ElementChr r' \<and> GeneEnsemblID r = GeneEnsemblID r'
              \<longrightarrow> GeneSymbol r = GeneSymbol r' \<and> GeneTSS r = GeneTSS r')"
  then show "\<exists>res. pinloop_main chiapet table = Inr res"
    using pinloop_main_succeeds[of table chiapet] by blast
qed

theorem output_table_frame_witness:
  "pinloop_main
     [\<lparr>chr = ''chr1'', center1 = 200, center2 = 700, loop_length = 500, count = 4\<rparr>,
      \<lparr>chr = ''chr1'', center1 = 250, center2 = 550, loop_length = 300, count = 12\<rparr>]
     [\<lparr>ElementChr = ''chr1'', ElementStart = 490, ElementEnd = 510, ElementName = ''e0'',
          GeneEnsemblID = ''gA'', GeneSymbol = ''A'', GeneTSS = 300,
          others = [(''note'', Str ''x'')]\<rparr>,
      \<lparr>ElementChr = ''chr1'', ElementStart = 590, ElementEnd = 610, ElementName = ''e1'',
          GeneEnsemblID = ''gA'', GeneSymbol = ''A'', GeneTSS = 300,
          others = [(''note'', Str ''y'')]\<rparr>]
   = Inr
     [\<lparr>ElementChr = ''chr1'', ElementStart = 490, ElementEnd = 510, ElementName = ''e0'',
          GeneEnsemblID = ''gA'', GeneSymbol = ''A'', GeneTSS = 300,
          others = [(''note'', Str ''x''), (''Pinloop'', Num (Finite 1))]\<rparr>,
      \<lparr>ElementChr = ''chr1'', ElementStart = 590, ElementEnd = 610, ElementName = ''e1'',
          GeneEnsemblID = ''gA'', GeneSymbol = ''A'', GeneTSS = 300,
          others = [(''note'', Str ''y''), (''Pinloop'', Num (Finite (1 / 4)))]\<rparr>]
   \<and> ''Pinloop'' \<notin> fst ` set [(''note'', Str ''x'')]
   \<and> ''Pinloop'' \<notin> fst ` set [(''note'', Str ''y'')]
   \<and> (0 :: rat) \<le> count \<lparr>chr = ''chr1'', center1 = 200, center2 = 700, loop_length = 500, count = 4\<rparr>
   \<and> (0 :: rat) \<le> count \<lparr>chr = ''chr1'', center1 = 250, center2 = 550, loop_length = 300, count = 12\<rparr>
   \<and> length
     [\<lparr>ElementChr = ''chr1'', ElementStart = 490, ElementEnd = 510, ElementName = ''e0'',
          GeneEnsemblID = ''gA'', GeneSymbol = ''A'', GeneTSS = 300,
          others = [(''note'', Str ''x''), (''Pinloop'', Num (Finite 1))]\<rparr>,
      \<lparr>ElementChr = ''chr1'', ElementStart = 590, ElementEnd = 610, ElementName = ''e1'',
          GeneEnsemblID = ''gA'', GeneSymbol = ''A'', GeneTSS = 300,
          others = [(''note'', Str ''y''), (''Pinloop'', Num (Finite (1 / 4)))]\<rparr>]
     = length
     [\<lparr>ElementChr = ''chr1'', ElementStart = 490, ElementEnd = 510, ElementName = ''e0'',
          GeneEnsemblID = ''gA'', GeneSymbol = ''A'', GeneTSS = 300,
          others = [(''note'', Str ''x'')]\<rparr>,
      \<lparr>ElementChr = ''chr1'', ElementStart = 590, ElementEnd = 610, ElementName = ''e1'',
          GeneEnsemblID = ''gA'', GeneSymbol = ''A'', GeneTSS = 300,
          others = [(''note'', Str ''y'')]\<rparr>]
   \<and> (\<exists>res. pinloop_main
     [\<lparr>chr = ''chr1'', center1 = 200, center2 = 700, loop_length = 500, count = 4\<rparr>,
      \<lparr>chr = ''chr1'', center1 = 250, center2 = 550, loop_length = 300, count = 12\<rparr>]
     [\<lparr>ElementChr = ''chr1'', ElementStart = 490, ElementEnd = 510, ElementName = ''e0'',
          GeneEnsemblID = ''gA'', GeneSymbol = ''A'', GeneTSS = 300,
          others = [(''note'', Str ''x'')]\<rparr>,
      \<lparr>ElementChr = ''chr1'', ElementStart = 590, ElementEnd = 610, ElementName = ''e1'',
          GeneEnsemblID = ''gA'', GeneSymbol = ''A'', GeneTSS = 300,
          others = [(''note'', Str ''y'')]\<rparr>] = Inr res)"
proof -
  let ?ls = "[\<lparr>chr = ''chr1'', center1 = 200, center2 = 700, loop_length = 500, count = 4\<rparr>,
      \<lparr>chr = ''chr1'', center1 = 250, center2 = 550, loop_length = 300, count = 12\<rparr>]"
  let ?t = "[\<lparr>ElementChr = ''chr1'', ElementStart = 490, ElementEnd = 510, ElementName = ''e0'',
          GeneEnsemblID = ''gA'', GeneSymbol = ''A'', GeneTSS = 300,
          others = [(''note'', Str ''x'')]\<rparr>,
      \<lparr>ElementChr = ''chr1'', ElementStart = 590, ElementEnd = 610, ElementName = ''e1'',
          GeneEnsemblID = ''gA'', GeneSymbol = ''A'', GeneTSS = 300,
          others = [(''note'', Str ''y'')]\<rparr>]"
  let ?out = "[\<lparr>ElementChr = ''chr1'', ElementStart = 490, ElementEnd = 510, ElementName = ''e0'',
          GeneEnsemblID = ''gA'', GeneSymbol = ''A'', GeneTSS = 300,
          others = [(''note'', Str ''x''), (''Pinloop'', Num (Finite 1))]\<rparr>,
      \<lparr>ElementChr = ''chr1'', ElementStart = 590, ElementEnd = 610, ElementName = ''e1'',
          GeneEnsemblID = ''gA'', GeneSymbol = ''A'', GeneTSS = 300,
          others = [(''note'', Str ''y''), (''Pinloop'', Num (Finite (1 / 4)))]\<rparr>]"
  have run: "pinloop_main ?ls ?t = Inr ?out"
    by (simp add: pinloop_main_def set_column_def process_chr_def genes_of_def elements_of_def
        chrom_pinloop_def alloc_pinloop_def axis_bins_def np_searchsorted_def Let_def frame_index_def
        searchsorted_def bisect_left.simps p_inloop_dense_def accumulate_def loop_step_def
        id_dict_def add_slice2_def add_slice_def in_slice_def np_divide_def true_divide_def np_T_def
        lookup_loc_def positions_def assign_pinloop_def loop.extend_def aloop.fields_def)
  have c: "\<forall>l\<in>set ?ls. 0 \<le> count l" by simp
  have e: "\<forall>r\<in>set ?t. \<forall>r'\<in>set ?t.
              ElementChr r = ElementChr r' \<and> ElementName r = ElementName r'
              \<longrightarrow> ElementStart r = ElementStart r' \<and> ElementEnd r = ElementEnd r'"
    by simp
  have g: "\<forall>r\<in>set ?t. \<forall>r'\<in>set ?t.
              ElementChr r = ElementChr r' \<and> GeneEnsemblID r = GeneEnsemblID r'
              \<longrightarrow> GeneSymbol r = GeneSymbol r' \<and> GeneTSS r = GeneTSS r'"
    by simp
  note inst = output_table_frame[OF c, of ?t ?out]
  from run inst have len: "length ?out = length ?t" by blast
  from e g inst have ex: "\<exists>res. pinloop_main ?ls ?t = Inr res" by blast
  from run len ex show ?thesis by simp
qed

theorem existing_pinloop_column_counterexample:
  "pinloop_main
     [\<lparr>chr = ''chr1'', center1 = 200, center2 = 700, loop_length = 500, count = 4\<rparr>]
     [\<lparr>ElementChr = ''chr1'', ElementStart = 490, ElementEnd = 510, ElementName = ''e0'',
          GeneEnsemblID = ''gA'', GeneSymbol = ''A'', GeneTSS = 300,
          others = [(''Pinloop'', Str ''old''), (''note'', Str ''x'')]\<rparr>]
   = Inr
     [\<lparr>ElementChr = ''chr1'', ElementStart = 490, ElementEnd = 510, ElementName = ''e0'',
          GeneEnsemblID = ''gA'', GeneSymbol = ''A'', GeneTSS = 300,
          others = [(''Pinloop'', Num (Finite 1)), (''note'', Str ''x'')]\<rparr>]"
  by (simp add: pinloop_main_def set_column_def process_chr_def genes_of_def elements_of_def
        chrom_pinloop_def alloc_pinloop_def axis_bins_def np_searchsorted_def Let_def frame_index_def
        searchsorted_def bisect_left.simps p_inloop_dense_def accumulate_def loop_step_def
        id_dict_def add_slice2_def add_slice_def in_slice_def np_divide_def true_divide_def np_T_def
        lookup_loc_def positions_def assign_pinloop_def loop.extend_def aloop.fields_def)

subsection \<open>The upper bound\<close>

text \<open>
  Claim C10. When every count is non-negative, every cell of the accumulated matrix is at
  most the total of its gene (each step adds the count to the total of every gene of the
  gene range and to cells of those genes only), so every cell of the normalised matrix is
  between 0 and 1; and whenever the run completes, every cell of the column \<open>Pinloop\<close>
  of the output is a number between 0 and 1.
\<close>

theorem pinloop_at_most_one:
  "((\<forall>a\<in>set als. 0 \<le> count a) \<longrightarrow>
      (\<forall>g<length prm_ids. \<forall>e<length enh_ids.
         fst (accumulate prm_ids enh_ids als) ! g ! e \<le> snd (accumulate prm_ids enh_ids als) ! g
         \<and> (\<exists>v. p_inloop_dense prm_ids enh_ids als ! g ! e = Finite v \<and> 0 \<le> v \<and> v \<le> 1)))
   \<and> ((\<forall>l\<in>set chiapet. 0 \<le> count l) \<and> pinloop_main chiapet table = Inr out \<longrightarrow>
      length out = length table
      \<and> (\<forall>r\<in>set out. \<forall>x. (''Pinloop'', x) \<in> set (others r) \<longrightarrow>
            (\<exists>v. x = Num (Finite v) \<and> 0 \<le> v \<and> v \<le> 1)))"
proof (intro conjI impI allI)
  fix g e
  assume c: "\<forall>a\<in>set als. 0 \<le> count a" and g: "g < length prm_ids" and e: "e < length enh_ids"
  show "fst (accumulate prm_ids enh_ids als) ! g ! e \<le> snd (accumulate prm_ids enh_ids als) ! g"
    using c g e by (rule accumulate_bound(2))
  show "\<exists>v. p_inloop_dense prm_ids enh_ids als ! g ! e = Finite v \<and> 0 \<le> v \<and> v \<le> 1"
    using c g e by (rule p_inloop_dense_unit)
next
  assume h: "(\<forall>l\<in>set chiapet. 0 \<le> count l) \<and> pinloop_main chiapet table = Inr out"
  then have run: "pinloop_main chiapet table = Inr out" and c: "\<forall>l\<in>set chiapet. 0 \<le> count l"
    by simp_all
  note rows = pinloop_main_rows[OF run c]
  show "length out = length table" using rows by simp
  show "\<forall>r\<in>set out. \<forall>x. (''Pinloop'', x) \<in> set (others r) \<longrightarrow>
            (\<exists>v. x = Num (Finite v) \<and> 0 \<le> v \<and> v \<le> 1)"
  proof (intro ballI allI impI)
    fix r x assume r: "r \<in> set out" and x: "(''Pinloop'', x) \<in> set (others r)"
    from r obtain i where i: "i < length out" "r = out ! i" by (auto simp: in_set_conv_nth)
    with rows obtain v where v: "0 \<le> v" "v \<le> 1"
      "r = set_column ''Pinloop'' (Num (Finite v)) (table ! i)" by auto
    from x have "x = Num (Finite v)" unfolding v(3) by (rule set_column_cells)
    with v show "\<exists>v. x = Num (Finite v) \<and> 0 \<le> v \<and> v \<le> 1" by blast
  qed
qed

theorem pinloop_at_most_one_witness:
  "(0 :: rat) \<le> count \<lparr>chr = ''chr1'', center1 = 200, center2 = 700, loop_length = 500, count = 4,
          atac_start = 0, atac_end = 2, rnaseq_start = 0, rnaseq_end = 1\<rparr>
   \<and> (0 :: rat) \<le> count \<lparr>chr = ''chr1'', center1 = 250, center2 = 550, loop_length = 300, count = 12,
          atac_start = 0, atac_end = 1, rnaseq_start = 0, rnaseq_end = 1\<rparr>
   \<and> accumulate [0] [0, 1]
        [\<lparr>chr = ''chr1'', center1 = 200, center2 = 700, loop_length = 500, count = 4,
          atac_start = 0, atac_end = 2, rnaseq_start = 0, rnaseq_end = 1\<rparr>,
         \<lparr>chr = ''chr1'', center1 = 250, center2 = 550, loop_length = 300, count = 12,
          atac_start = 0, atac_end = 1, rnaseq_start = 0, rnaseq_end = 1\<rparr>]
      = ([[16, 4]], [16])
   \<and> p_inloop_dense [0] [0, 1]
        [\<lparr>chr = ''chr1'', center1 = 200, center2 = 700, loop_length = 500, count = 4,
          atac_start = 0, atac_end = 2, rnaseq_start = 0, rnaseq_end = 1\<rparr>,
         \<lparr>chr = ''chr1'', center1 = 250, center2 = 550, loop_length = 300, count = 12,
          atac_start = 0, atac_end = 1, rnaseq_start = 0, rnaseq_end = 1\<rparr>]
      = [[Finite 1, Finite (1 / 4)]]
   \<and> fst (accumulate [0] [0, 1]
        [\<lparr>chr = ''chr1'', center1 = 200, center2 = 700, loop_length = 500, count = 4,
          atac_start = 0, atac_end = 2, rnaseq_start = 0, rnaseq_end = 1\<rparr>,
         \<lparr>chr = ''chr1'', center1 = 250, center2 = 550, loop_length = 300, count = 12,
          atac_start = 0, atac_end = 1, rnaseq_start = 0, rnaseq_end = 1\<rparr>]) ! 0 ! 1
       \<le> snd (accumulate [0] [0, 1]
        [\<lparr>chr = ''chr1'', center1 = 200, center2 = 700, loop_length = 500, count = 4,
          atac_start = 0, atac_end = 2, rnaseq_start = 0, rnaseq_end = 1\<rparr>,
         \<lparr>chr = ''chr1'', center1 = 250, center2 = 550, loop_length = 300, count = 12,
          atac_start = 0, atac_end = 1, rnaseq_start = 0, rnaseq_end = 1\<rparr>]) ! 0
   \<and> pinloop_main
     [\<lparr>chr = ''chr1'', center1 = 200, center2 = 700, loop_length = 500, count = 4\<rparr>,
      \<lparr>chr = ''chr1'', center1 = 250, center2 = 450, loop_length = 200, count = 12\<rparr>,
      \<lparr>chr = ''chr2'', center1 = 100, center2 = 130, loop_length = 30, count = 2\<rparr>]
     [\<lparr>ElementChr = ''chr1'', ElementStart = 490, ElementEnd = 510, ElementName = ''e0'',
          GeneEnsemblID = ''gA'', GeneSymbol = ''A'', GeneTSS = 300,
          others = []\<rparr>,
      \<lparr>ElementChr = ''chr2'', ElementStart = 100, ElementEnd = 200, ElementName = ''e5'',
          GeneEnsemblID = ''gZ'', GeneSymbol = ''Z'', GeneTSS = 120,
          others = []\<rparr>]
   = Inr
     [\<lparr>ElementChr = ''chr1'', ElementStart = 490, ElementEnd = 510, ElementName = ''e0'',
          GeneEnsemblID = ''gA'', GeneSymbol = ''A'', GeneTSS = 300,
          others = [(''Pinloop'', Num (Finite (1 / 4)))]\<rparr>,
      \<lparr>ElementChr = ''chr2'', ElementStart = 100, ElementEnd = 200, ElementName = ''e5'',
          GeneEnsemblID = ''gZ'', GeneSymbol = ''Z'', GeneTSS = 120,
          others = [(''Pinloop'', Num (Finite 0))]\<rparr>]
   \<and> length
     [\<lparr>ElementChr = ''chr1'', ElementStart = 490, ElementEnd = 510, ElementName = ''e0'',
          GeneEnsemblID = ''gA'', GeneSymbol = ''A'', GeneTSS = 300,
          others = [(''Pinloop'', Num (Finite (1 / 4)))]\<rparr>,
      \<lparr>ElementChr = ''chr2'', ElementStart = 100, ElementEnd = 200, ElementName = ''e5'',
          GeneEnsemblID = ''gZ'', GeneSymbol = ''Z'', GeneTSS = 120,
          others = [(''Pinloop'', Num (Finite 0))]\<rparr>]
   = length
     [\<lparr>ElementChr = ''chr1'', ElementStart = 490, ElementEnd = 510, ElementName = ''e0'',
          GeneEnsemblID = ''gA'', GeneSymbol = ''A'', GeneTSS = 300,
          others = []\<rparr>,
      \<lparr>ElementChr = ''chr2'', ElementStart = 100, ElementEnd = 200, ElementName = ''e5'',
          GeneEnsemblID = ''gZ'', GeneSymbol = ''Z'', GeneTSS = 120,
          others = []\<rparr>]"
proof -
  let ?ls = "[\<lparr>chr = ''chr1'', center1 = 200, center2 = 700, loop_length = 500, count = 4\<rparr>,
      \<lparr>chr = ''chr1'', center1 = 250, center2 = 450, loop_length = 200, count = 12\<rparr>,
      \<lparr>chr = ''chr2'', center1 = 100, center2 = 130, loop_length = 30, count = 2\<rparr>]"
  let ?t = "[\<lparr>ElementChr = ''chr1'', ElementStart = 490, ElementEnd = 510, ElementName = ''e0'',
          GeneEnsemblID = ''gA'', GeneSymbol = ''A'', GeneTSS = 300,
          others = []\<rparr>,
      \<lparr>ElementChr = ''chr2'', ElementStart = 100, ElementEnd = 200, ElementName = ''e5'',
          GeneEnsemblID = ''gZ'', GeneSymbol = ''Z'', GeneTSS = 120,
          others = []\<rparr>]"
  let ?out = "[\<lparr>ElementChr = ''chr1'', ElementStart = 490, ElementEnd = 510, ElementName = ''e0'',
          GeneEnsemblID = ''gA'', GeneSymbol = ''A'', GeneTSS = 300,
          others = [(''Pinloop'', Num (Finite (1 / 4)))]\<rparr>,
      \<lparr>ElementChr = ''chr2'', ElementStart = 100, ElementEnd = 200, ElementName = ''e5'',
          GeneEnsemblID = ''gZ'', GeneSymbol = ''Z'', GeneTSS = 120,
          others = [(''Pinloop'', Num (Finite 0))]\<rparr>]"
  have run: "pinloop_main ?ls ?t = Inr ?out"
    by (simp add: pinloop_main_def set_column_def process_chr_def genes_of_def elements_of_def
        chrom_pinloop_def alloc_pinloop_def axis_bins_def np_searchsorted_def Let_def frame_index_def
        searchsorted_def bisect_left.simps p_inloop_dense_def accumulate_def loop_step_def
        id_dict_def add_slice2_def add_slice_def in_slice_def np_divide_def true_divide_def np_T_def
        lookup_loc_def positions_def assign_pinloop_def loop.extend_def aloop.fields_def)
  have cl: "\<forall>l\<in>set ?ls. 0 \<le> count l" by simp
  from cl run pinloop_at_most_one[of "[]" "[]" "[]" ?ls ?t ?out]
  have len: "length ?out = length ?t" by blast
  let ?als = "[\<lparr>chr = ''chr1'', center1 = 200, center2 = 700, loop_length = 500, count = 4,
          atac_start = 0, atac_end = 2, rnaseq_start = 0, rnaseq_end = 1\<rparr>,
         \<lparr>chr = ''chr1'', center1 = 250, center2 = 550, loop_length = 300, count = 12,
          atac_start = 0, atac_end = 1, rnaseq_start = 0, rnaseq_end = 1\<rparr>]"
  have c: "\<forall>a\<in>set ?als. 0 \<le> count a" by simp
  have "(0::nat) < length [0 :: int]" "(1::nat) < length [0, 1 :: int]" by simp_all
  with c pinloop_at_most_one[of ?als "[0]" "[0, 1]" "[]" "[]" "[]"]
  have le: "fst (accumulate [0] [0, 1] ?als) ! 0 ! 1 \<le> snd (accumulate [0] [0, 1] ?als) ! 0"
    by blast
  have acc: "accumulate [0] [0, 1] ?als = ([[16, 4]], [16])"
    by (simp add: accumulate_def loop_step_def id_dict_def add_slice2_def add_slice_def
        in_slice_def upt_rec)
  have "p_inloop_dense [0] [0, 1] ?als = [[Finite 1, Finite (1 / 4)]]"
    by (simp add: p_inloop_dense_def np_divide_def true_divide_def acc)
  with le acc show ?thesis using run len by simp
qed

end
